theory Spec2Isabelle
  imports Complex_Main
begin

section \<open>Chunk identifiers and requests\<close>

text \<open>
  A chunk id is a JavaScript number (the batch coordinator sends the chunk index) or the
  string \<^verbatim>\<open>'realtime'\<close> (the realtime component). \<open>js_le\<close> is JavaScript's
  \<^verbatim>\<open><=\<close> on these values: two numbers compare numerically, the string
  \<^verbatim>\<open>'realtime'\<close> against a number converts to NaN and compares false, and
  two equal strings compare true. Strict equality \<^verbatim>\<open>===\<close> is equality of the datatype.
\<close>

datatype chunk_id = Num int | Realtime

fun js_le :: "chunk_id \<Rightarrow> chunk_id \<Rightarrow> bool" where
  "js_le (Num a) (Num b) = (a \<le> b)"
| "js_le Realtime Realtime = True"
| "js_le (Num a) Realtime = False"
| "js_le Realtime (Num b) = False"

text \<open>The argument of \<^verbatim>\<open>generate\<close>: \<^verbatim>\<open>{ audio, language, chunkId }\<close>.
  Samples are only copied and sliced by the code under study, never computed with.\<close>

record request =
  audio :: "real list"
  language :: string
  chunkId :: chunk_id

section \<open>Template literals\<close>

text \<open>Decimal rendering of a non-negative integer, as a template literal prints a chunk index.\<close>

definition digit_char :: "nat \<Rightarrow> char" where
  "digit_char d = ''0123456789'' ! d"

fun string_of_nat :: "nat \<Rightarrow> string" where
  "string_of_nat n =
     (if n < 10 then [digit_char n] else string_of_nat (n div 10) @ [digit_char (n mod 10)])"

declare string_of_nat.simps [simp del]

fun string_of_chunk_id :: "chunk_id \<Rightarrow> string" where
  "string_of_chunk_id (Num n) =
     (if n < 0 then CHR ''-'' # string_of_nat (nat (- n)) else string_of_nat (nat n))"
| "string_of_chunk_id Realtime = ''realtime''"

section \<open>The worker: \<^verbatim>\<open>generate\<close> in worker.js\<close>

text \<open>
  Messages the worker posts to the main thread while generating. \<open>Update\<close> carries the
  streamed output and the token count (the tokens-per-second figure is a wall-clock
  measurement and is left out). \<open>Error\<close> carries the \<^verbatim>\<open>data\<close> string and the
  chunk id.
\<close>

datatype wmsg =
    Start chunk_id
  | Update chunk_id string nat
  | Complete chunk_id "string list"
  | Error string chunk_id

text \<open>How the awaited inference call of one \<^verbatim>\<open>generate\<close> invocation ends: with the
  decoded texts, or with a thrown error (its \<^verbatim>\<open>toString()\<close>).\<close>

datatype outcome = Success "string list" | Failure string

text \<open>
  The module state of worker.js (\<open>isCurrentlyProcessing\<close>, \<open>lastProcessedChunkId\<close>,
  \<open>processingQueue\<close>) together with what the JavaScript runtime holds for it:
  \<open>suspended\<close> are the \<^verbatim>\<open>generate\<close> invocations waiting inside the
  \<^verbatim>\<open>try\<close> block (each with its closure variable \<open>numTokens\<close>), \<open>timers\<close> the
  callbacks registered by \<^verbatim>\<open>setTimeout(..., 0)\<close> that have not fired yet, in
  registration order, and \<open>posted\<close> the log of \<^verbatim>\<open>self.postMessage\<close> calls.
\<close>

record worker =
  isCurrentlyProcessing :: bool
  lastProcessedChunkId :: chunk_id
  processingQueue :: "request list"
  suspended :: "(request \<times> nat) list"
  timers :: "request list"
  posted :: "wmsg list"

definition worker_init :: worker where
  "worker_init = \<lparr> isCurrentlyProcessing = False, lastProcessedChunkId = Num (- 1),
     processingQueue = [], suspended = [], timers = [], posted = [] \<rparr>"

text \<open>\<^verbatim>\<open>processingQueue.some(item => item.chunkId === chunkId)\<close>\<close>

definition queued :: "request list \<Rightarrow> chunk_id \<Rightarrow> bool" where
  "queued q c = list_ex (\<lambda>item. chunkId item = c) q"

text \<open>
  The synchronous part of \<^verbatim>\<open>generate\<close>, from its entry to the first
  \<^verbatim>\<open>await\<close> (or to the early \<^verbatim>\<open>return\<close>): when already processing, the
  request is skipped or pushed on the queue; otherwise the flag is set, the id recorded,
  \<^verbatim>\<open>start\<close> posted, and the invocation suspends.
\<close>

definition generate :: "worker \<Rightarrow> request \<Rightarrow> worker" where
  "generate s r =
     (if isCurrentlyProcessing s then
        (if js_le (chunkId r) (lastProcessedChunkId s) \<or> queued (processingQueue s) (chunkId r)
         then s
         else s\<lparr> processingQueue := processingQueue s @ [r] \<rparr>)
      else
        s\<lparr> isCurrentlyProcessing := True,
           lastProcessedChunkId := chunkId r,
           posted := posted s @ [Start (chunkId r)],
           suspended := suspended s @ [(r, 0)] \<rparr>)"

text \<open>The streamer's \<^verbatim>\<open>callback_function\<close> of the oldest suspended invocation:
  counts the token and posts \<^verbatim>\<open>update\<close>.\<close>

definition callback_function :: "worker \<Rightarrow> string \<Rightarrow> worker" where
  "callback_function s output =
     (case suspended s of
        [] \<Rightarrow> s
      | (r, numTokens) # rest \<Rightarrow>
          s\<lparr> suspended := (r, Suc numTokens) # rest,
             posted := posted s @ [Update (chunkId r) output (Suc numTokens)] \<rparr>)"

text \<open>The message posted when the awaited call ends: \<^verbatim>\<open>complete\<close> at the end of
  the \<^verbatim>\<open>try\<close> block, or \<^verbatim>\<open>error\<close> from the \<^verbatim>\<open>catch\<close> block.\<close>

fun terminal :: "chunk_id \<Rightarrow> outcome \<Rightarrow> wmsg" where
  "terminal c (Success outputText) = Complete c outputText"
| "terminal c (Failure e) =
     Error (''Error processing audio segment '' @ string_of_chunk_id c @ '': '' @ e) c"

text \<open>
  The rest of the oldest suspended invocation once its awaited call ends: the terminal
  message, then the \<^verbatim>\<open>finally\<close> block, which clears the flag and, when the queue
  is not empty, shifts its head into a \<^verbatim>\<open>setTimeout\<close> callback. With no suspended
  invocation nothing can end, and the state is unchanged.
\<close>

definition settle :: "worker \<Rightarrow> outcome \<Rightarrow> worker" where
  "settle s out =
     (case suspended s of
        [] \<Rightarrow> s
      | (r, numTokens) # rest \<Rightarrow>
          (let s1 = s\<lparr> suspended := rest,
                        posted := posted s @ [terminal (chunkId r) out],
                        isCurrentlyProcessing := False \<rparr>
           in case processingQueue s1 of
                [] \<Rightarrow> s1
              | nextItem # q \<Rightarrow> s1\<lparr> processingQueue := q, timers := timers s1 @ [nextItem] \<rparr>))"

text \<open>The oldest pending timer fires: \<^verbatim>\<open>generate(nextItem)\<close> is called.\<close>

definition timeout :: "worker \<Rightarrow> worker" where
  "timeout s = (case timers s of [] \<Rightarrow> s | nextItem # ts \<Rightarrow> generate (s\<lparr> timers := ts \<rparr>) nextItem)"

text \<open>What the worker's event loop can run next: a \<^verbatim>\<open>generate\<close> message from the
  main thread, a streamed token, the end of the awaited inference call, a timer.\<close>

datatype wevent = Message request | Token string | Finish outcome | Timeout

fun wstep :: "worker \<Rightarrow> wevent \<Rightarrow> worker" where
  "wstep s (Message r) = generate s r"
| "wstep s (Token output) = callback_function s output"
| "wstep s (Finish out) = settle s out"
| "wstep s Timeout = timeout s"

definition wrun :: "wevent list \<Rightarrow> worker" where
  "wrun evs = foldl wstep worker_init evs"

text \<open>
  Reading the posted log: \<open>scan cur log\<close> follows the log from the situation \<open>cur\<close>
  (\<open>None\<close>: nothing in flight; \<open>Some c\<close>: chunk \<open>c\<close> started and not yet ended) and
  returns the situation at the end, or \<open>None\<close> when the log starts a chunk while
  another is in flight, or reports on a chunk that is not the one in flight.
\<close>

fun scan :: "chunk_id option \<Rightarrow> wmsg list \<Rightarrow> chunk_id option option" where
  "scan cur [] = Some cur"
| "scan None (Start c # ms) = scan (Some c) ms"
| "scan (Some c) (Update d output n # ms) = (if c = d then scan (Some c) ms else None)"
| "scan (Some c) (Complete d outputText # ms) = (if c = d then scan None ms else None)"
| "scan (Some c) (Error e d # ms) = (if c = d then scan None ms else None)"
| "scan cur (m # ms) = None"

text \<open>The ids of the invocations in flight.\<close>

definition in_flight :: "worker \<Rightarrow> chunk_id list" where
  "in_flight s = map (chunkId \<circ> fst) (suspended s)"

text \<open>The id of the last \<^verbatim>\<open>start\<close> message of a log (\<open>d\<close> when there is none).\<close>

fun last_started :: "chunk_id \<Rightarrow> wmsg list \<Rightarrow> chunk_id" where
  "last_started d [] = d"
| "last_started d (Start c # ms) = last_started c ms"
| "last_started d (m # ms) = last_started d ms"

text \<open>The ids of the \<^verbatim>\<open>start\<close> messages of a log, in order.\<close>

fun starts :: "wmsg list \<Rightarrow> chunk_id list" where
  "starts [] = []"
| "starts (Start c # ms) = c # starts ms"
| "starts (m # ms) = starts ms"

text \<open>A request with a numeric id, for concrete runs.\<close>

definition request_of :: "int \<Rightarrow> request" where
  "request_of n = \<lparr> audio = [], language = ''en'', chunkId = Num n \<rparr>"

text \<open>
  What every reachable worker state satisfies: the flag is set exactly while an invocation
  is suspended; at most one is; an idle worker with a non-empty queue has a timer pending;
  the posted log is a sequence of start, updates and terminal message per chunk, open
  exactly for the chunk in flight; \<open>lastProcessedChunkId\<close> is the id of the last
  \<^verbatim>\<open>start\<close>.
\<close>

definition winv :: "worker \<Rightarrow> bool" where
  "winv s = ((isCurrentlyProcessing s = (suspended s \<noteq> []))
     \<and> length (suspended s) \<le> 1
     \<and> (isCurrentlyProcessing s \<or> processingQueue s = [] \<or> timers s \<noteq> [])
     \<and> scan None (posted s) = Some (case in_flight s of [] \<Rightarrow> None | c # cs \<Rightarrow> Some c)
     \<and> lastProcessedChunkId s = last_started (Num (- 1)) (posted s)
     \<and> (suspended s = [] \<or> in_flight s = [lastProcessedChunkId s]))"

section \<open>Strings and numbers of the main thread\<close>

text \<open>
  Strings are lists of 8-bit characters. \<open>is_ws\<close> holds of the characters up to U+00FF
  that \<^verbatim>\<open>String.prototype.trim\<close> removes: tab, line feed, vertical tab, form feed,
  carriage return, space and no-break space.
\<close>

definition is_ws :: "char \<Rightarrow> bool" where
  "is_ws c = (of_char c \<in> {9, 10, 11, 12, 13, 32, 160 :: nat})"

definition js_trim :: "string \<Rightarrow> string" where
  "js_trim s = rev (dropWhile is_ws (rev (dropWhile is_ws s)))"

text \<open>\<^verbatim>\<open>s.endsWith(search)\<close>\<close>

definition endsWith :: "string \<Rightarrow> string \<Rightarrow> bool" where
  "endsWith s search = (length search \<le> length s \<and> drop (length s - length search) s = search)"

text \<open>\<^verbatim>\<open>xs.slice(start, end)\<close> for non-negative indices: out-of-range indices are clamped.\<close>

definition slice :: "'a list \<Rightarrow> nat \<Rightarrow> nat \<Rightarrow> 'a list" where
  "slice xs start end = drop start (take end xs)"

text \<open>\<^verbatim>\<open>Math.round\<close>: the nearest integer, a tie going up.\<close>

definition js_round :: "real \<Rightarrow> int" where
  "js_round x = \<lfloor>x + 1 / 2\<rfloor>"

text \<open>The constants of the two audio components; \<open>MAX_PARALLEL_CHUNKS\<close> is local to \<^verbatim>\<open>processChunks\<close>.\<close>

definition WHISPER_SAMPLING_RATE :: nat where "WHISPER_SAMPLING_RATE = 16000"
definition MAX_AUDIO_LENGTH :: nat where "MAX_AUDIO_LENGTH = 30"
definition MAX_SAMPLES :: nat where "MAX_SAMPLES = WHISPER_SAMPLING_RATE * MAX_AUDIO_LENGTH"
definition MAX_PARALLEL_CHUNKS :: nat where "MAX_PARALLEL_CHUNKS = 3"

text \<open>
  The state of the main thread. From App: \<open>status\<close> (\<open>None\<close> is \<^verbatim>\<open>null\<close>),
  \<open>transcript\<close> (the React state \<^verbatim>\<open>text\<close>), \<open>mode\<close> and the selected language.
  \<open>chunkResolvers\<close> is \<^verbatim>\<open>window.chunkResolvers\<close>: \<^verbatim>\<open>null\<close> or an object
  from chunk ids to resolve functions. A promise is named by a number, taken from
  \<open>nextPromise\<close> when it is created; a resolve function is the number of its promise,
  and \<open>resolved\<close> logs the calls of resolve functions. From AudioFileComponent:
  \<open>processingProgress\<close>, \<open>isProcessingFullFile\<close>, its \<open>isProcessing\<close>
  (\<open>isProcessing_file\<close>); from RealTimeAudioComponent: \<open>isProcessing\<close>.
  \<open>progressLog\<close> logs the calls of \<^verbatim>\<open>setProcessingProgress\<close>, \<open>batchLog\<close> the
  pairs (batch size, start index) that \<^verbatim>\<open>processChunks\<close> prints for each batch,
  \<open>outbox\<close> the \<^verbatim>\<open>generate\<close> messages posted to the worker, \<open>uncaught\<close> the
  exceptions that escaped a listener. \<open>awaiting\<close> is the invocation of
  \<^verbatim>\<open>processChunks\<close> suspended at \<^verbatim>\<open>await Promise.all(chunkPromises)\<close>, with its
  local variables. State setters are applied at once. The refs that are written and
  never read (\<^verbatim>\<open>currentChunkRef\<close>, \<^verbatim>\<open>totalChunksRef\<close>,
  \<^verbatim>\<open>waitingForChunkRef\<close>) and the tokens-per-second state are left out.
\<close>

datatype mode = RealtimeMode | FileMode
datatype js_error = TypeError

record task =
  t_audio :: "real list"
  t_totalChunks :: nat
  t_i :: nat
  t_chunkPromises :: "nat list"

record coord =
  status :: "string option"
  transcript :: string
  mode :: mode
  ui_language :: string
  chunkResolvers :: "(chunk_id \<times> nat) list option"
  nextPromise :: nat
  resolved :: "nat list"
  processingProgress :: int
  progressLog :: "int list"
  isProcessingFullFile :: bool
  isProcessing_file :: bool
  isProcessing :: bool
  batchLog :: "(nat \<times> nat) list"
  outbox :: "request list"
  awaiting :: "task option"
  uncaught :: "js_error list"

text \<open>\<^verbatim>\<open>window.chunkResolvers[k] = v\<close>\<close>

definition assign :: "(chunk_id \<times> nat) list \<Rightarrow> chunk_id \<Rightarrow> nat \<Rightarrow> (chunk_id \<times> nat) list" where
  "assign m k v = (k, v) # filter (\<lambda>kv. fst kv \<noteq> k) m"

text \<open>
  The lines shared by the two listeners that resolve a waiter: when
  \<^verbatim>\<open>window.chunkResolvers\<close> is not null and holds a resolver for the id, the entry is
  deleted and the resolver called.
\<close>

definition resolve_chunk :: "coord \<Rightarrow> chunk_id \<Rightarrow> coord" where
  "resolve_chunk s c =
     (case chunkResolvers s of
        None \<Rightarrow> s
      | Some m \<Rightarrow>
          (case map_of m c of
             None \<Rightarrow> s
           | Some resolver \<Rightarrow>
               s\<lparr> chunkResolvers := Some (filter (\<lambda>kv. fst kv \<noteq> c) m),
                  resolved := resolved s @ [resolver] \<rparr>))"

text \<open>
  The body of the inner loop of \<^verbatim>\<open>processChunks\<close> for one \<open>j\<close>: the slice, the
  progress, the promise with its resolver stored under the chunk index, and the message
  to the worker. \<open>fl\<close> is the rounding of the floating-point division and
  multiplication in \<^verbatim>\<open>Math.round((i + j) / totalChunks * 100)\<close>. The accumulator
  carries the state and \<open>chunkPromises\<close>.
\<close>

definition loop_body ::
  "(real \<Rightarrow> real) \<Rightarrow> real list \<Rightarrow> nat \<Rightarrow> nat \<Rightarrow> coord \<times> nat list \<Rightarrow> nat \<Rightarrow> coord \<times> nat list" where
  "loop_body fl samples totalChunks i acc j =
     (let s = fst acc;
          chunkPromises = snd acc;
          chunkIndex = i + j;
          startSample = chunkIndex * MAX_SAMPLES;
          endSample = min (startSample + MAX_SAMPLES) (length samples);
          audioChunk = slice samples startSample endSample;
          progress = js_round (fl (fl (real (i + j) / real totalChunks) * 100));
          chunkPromise = nextPromise s;
          m = (case chunkResolvers s of None \<Rightarrow> [] | Some m \<Rightarrow> m)
      in (s\<lparr> processingProgress := progress,
             progressLog := progressLog s @ [progress],
             nextPromise := Suc chunkPromise,
             chunkResolvers := Some (assign m (Num (int chunkIndex)) chunkPromise),
             outbox := outbox s @
               [\<lparr> audio = audioChunk, language = ui_language s, chunkId = Num (int chunkIndex) \<rparr>] \<rparr>,
          chunkPromises @ [chunkPromise]))"

text \<open>
  The outer loop of \<^verbatim>\<open>processChunks\<close> from index \<open>i\<close>: either one batch and
  the suspension at \<^verbatim>\<open>await Promise.all\<close> (a batch is never empty, so its new
  promises are pending), or the statements after the loop.
\<close>

definition for_loop :: "(real \<Rightarrow> real) \<Rightarrow> coord \<Rightarrow> real list \<Rightarrow> nat \<Rightarrow> nat \<Rightarrow> coord" where
  "for_loop fl s samples totalChunks i =
     (if i < totalChunks then
        (let batchSize = min MAX_PARALLEL_CHUNKS (totalChunks - i);
             s0 = s\<lparr> batchLog := batchLog s @ [(batchSize, i)] \<rparr>;
             r = foldl (loop_body fl samples totalChunks i) (s0, []) [0..<batchSize]
         in (fst r)\<lparr> awaiting := Some \<lparr> t_audio = samples, t_totalChunks = totalChunks, t_i = i,
                                        t_chunkPromises = snd r \<rparr> \<rparr>)
      else s\<lparr> isProcessingFullFile := False, isProcessing_file := False,
              processingProgress := 100, progressLog := progressLog s @ [100],
              awaiting := None \<rparr>)"

definition processChunks :: "(real \<Rightarrow> real) \<Rightarrow> coord \<Rightarrow> real list \<Rightarrow> nat \<Rightarrow> coord" where
  "processChunks fl s samples totalChunks = for_loop fl s samples totalChunks 0"

text \<open>
  The continuation of the suspended \<^verbatim>\<open>processChunks\<close>: once every promise of
  \<open>chunkPromises\<close> is resolved, the loop goes on with \<open>i + MAX_PARALLEL_CHUNKS\<close>.
\<close>

definition resume :: "(real \<Rightarrow> real) \<Rightarrow> coord \<Rightarrow> coord" where
  "resume fl s =
     (case awaiting s of
        None \<Rightarrow> s
      | Some t \<Rightarrow>
          if list_all (\<lambda>p. p \<in> set (resolved s)) (t_chunkPromises t)
          then for_loop fl (s\<lparr> awaiting := None \<rparr>) (t_audio t) (t_totalChunks t)
                 (t_i t + MAX_PARALLEL_CHUNKS)
          else s)"

text \<open>The synchronous start of \<^verbatim>\<open>processAudioFileWithFile\<close>, before the file is read.\<close>

definition processAudioFileWithFile :: "coord \<Rightarrow> coord" where
  "processAudioFileWithFile s =
     s\<lparr> processingProgress := 0, progressLog := progressLog s @ [0],
        isProcessingFullFile := True, transcript := [] \<rparr>"

text \<open>
  \<^verbatim>\<open>fileReader.onloadend\<close>: \<open>decoded\<close> is channel 0 of the decoded audio, or
  \<open>None\<close> when decoding throws. \<^verbatim>\<open>Math.ceil(audio.length / MAX_SAMPLES)\<close> is taken
  exactly: a quotient of an array length by 480000 that is not an integer is further from
  the next integer than a binary64 rounding error.
\<close>

definition onloadend :: "(real \<Rightarrow> real) \<Rightarrow> coord \<Rightarrow> real list option \<Rightarrow> coord" where
  "onloadend fl s decoded =
     (case decoded of
        None \<Rightarrow> s\<lparr> isProcessing_file := False, isProcessingFullFile := False \<rparr>
      | Some samples \<Rightarrow>
          processChunks fl s samples (nat \<lceil>real (length samples) / real MAX_SAMPLES\<rceil>))"

text \<open>
  \<^verbatim>\<open>onMessageReceived\<close> of App.jsx, on the messages of \<^verbatim>\<open>generate\<close>: only
  \<^verbatim>\<open>error\<close> changes the modelled state.
\<close>

definition onMessageReceived :: "coord \<Rightarrow> wmsg \<Rightarrow> coord" where
  "onMessageReceived s m =
     (case m of
        Error data errorChunkId \<Rightarrow>
          resolve_chunk (s\<lparr> status := Some ''error'', transcript := ''Error: '' @ data \<rparr>) errorChunkId
      | _ \<Rightarrow> s)"

text \<open>
  \<^verbatim>\<open>handleWorkerMessage\<close> of AudioFileComponent. \<^verbatim>\<open>e.data.output[0].trim()\<close>
  throws a TypeError on an empty array, which ends the listener.
\<close>

definition handleWorkerMessage_file :: "coord \<Rightarrow> wmsg \<Rightarrow> coord" where
  "handleWorkerMessage_file s m =
     (case m of
        Complete c output \<Rightarrow>
          if isProcessingFullFile s then
            (case output of
               [] \<Rightarrow> s\<lparr> uncaught := uncaught s @ [TypeError] \<rparr>
             | out0 # rest \<Rightarrow>
                 (let newOutput = js_trim out0;
                      s1 = (if newOutput \<noteq> [] then s\<lparr> transcript := transcript s @ '' '' @ newOutput \<rparr>
                            else s)
                  in resolve_chunk s1 c))
          else s
      | _ \<Rightarrow> s)"

text \<open>The function passed to \<^verbatim>\<open>setText\<close> by the realtime listener; \<open>p\<close> is the current text.\<close>

definition updater :: "string \<Rightarrow> string \<Rightarrow> string" where
  "updater output p =
     (let trimmed = js_trim p in
      if trimmed = [] then output
      else if \<not> endsWith trimmed output \<and> output \<noteq> ''[BLANK_AUDIO]'' then trimmed @ '' '' @ output
      else trimmed)"

text \<open>\<^verbatim>\<open>handleWorkerMessage\<close> of RealTimeAudioComponent.\<close>

definition handleWorkerMessage_realtime :: "coord \<Rightarrow> wmsg \<Rightarrow> coord" where
  "handleWorkerMessage_realtime s m =
     (case m of
        Start c \<Rightarrow> if c = Realtime then s\<lparr> isProcessing := True \<rparr> else s
      | Complete c out \<Rightarrow>
          if c = Realtime then
            (let s1 = s\<lparr> isProcessing := False \<rparr> in
             case out of
               [] \<Rightarrow> s1\<lparr> uncaught := uncaught s1 @ [TypeError] \<rparr>
             | out0 # rest \<Rightarrow>
                 (let output = js_trim out0 in
                  if output \<noteq> [] \<and> output \<noteq> ''[BLANK_AUDIO]''
                  then s1\<lparr> transcript := updater output (transcript s1) \<rparr>
                  else s1))
          else s
      | _ \<Rightarrow> s)"

text \<open>
  One message from the worker reaches the listeners: App's, then the one of the mounted
  component (a component is mounted while \<open>status\<close> is \<^verbatim>\<open>'ready'\<close>, by mode).
\<close>

definition deliver :: "coord \<Rightarrow> wmsg \<Rightarrow> coord" where
  "deliver s m =
     (let s1 = onMessageReceived s m in
      if status s = Some ''ready'' then
        (case mode s of
           FileMode \<Rightarrow> handleWorkerMessage_file s1 m
         | RealtimeMode \<Rightarrow> handleWorkerMessage_realtime s1 m)
      else s1)"

text \<open>
  Events of the main thread: a message from the worker, after whose listeners the
  continuation of \<^verbatim>\<open>processChunks\<close> runs if its promises are resolved; and an
  effect cleanup, which sets \<^verbatim>\<open>window.chunkResolvers = null\<close>.
\<close>

datatype cevent = FromWorker wmsg | Cleanup

fun cstep :: "(real \<Rightarrow> real) \<Rightarrow> coord \<Rightarrow> cevent \<Rightarrow> coord" where
  "cstep fl s (FromWorker m) = resume fl (deliver s m)"
| "cstep fl s Cleanup = s\<lparr> chunkResolvers := None \<rparr>"

definition crun :: "(real \<Rightarrow> real) \<Rightarrow> coord \<Rightarrow> cevent list \<Rightarrow> coord" where
  "crun fl s evs = foldl (cstep fl) s evs"

text \<open>The message \<^verbatim>\<open>processChunks\<close> posts for chunk \<open>c\<close> of \<open>samples\<close>.\<close>

definition chunk_request :: "real list \<Rightarrow> string \<Rightarrow> nat \<Rightarrow> request" where
  "chunk_request samples lang c =
     \<lparr> audio = slice samples (c * MAX_SAMPLES) (min (c * MAX_SAMPLES + MAX_SAMPLES) (length samples)),
       language = lang, chunkId = Num (int c) \<rparr>"

text \<open>A terminal message (\<^verbatim>\<open>complete\<close> or \<^verbatim>\<open>error\<close>) for chunk \<open>d\<close> is among the events.\<close>

fun is_terminal_for :: "nat \<Rightarrow> cevent \<Rightarrow> bool" where
  "is_terminal_for d (FromWorker (Complete c output)) = (c = Num (int d))"
| "is_terminal_for d (FromWorker (Error e c)) = (c = Num (int d))"
| "is_terminal_for d ev = False"

definition has_terminal :: "cevent list \<Rightarrow> nat \<Rightarrow> bool" where
  "has_terminal evs d = list_ex (is_terminal_for d) evs"

text \<open>No \<^verbatim>\<open>processChunks\<close> is suspended, and every promise the state refers to has
  been created.\<close>

definition quiescent :: "coord \<Rightarrow> bool" where
  "quiescent s = (awaiting s = None
     \<and> list_all (\<lambda>p. p < nextPromise s) (resolved s)
     \<and> (case chunkResolvers s of None \<Rightarrow> True
         | Some m \<Rightarrow> list_all (\<lambda>kv. snd kv < nextPromise s) m))"

text \<open>
  The standard model of binary64 arithmetic, away from underflow and overflow: the
  computed result of a division or multiplication differs from the exact one by a relative
  error of at most 2 to the power -53, and zero is computed exactly.
\<close>

definition binary64_rounding :: "(real \<Rightarrow> real) \<Rightarrow> bool" where
  "binary64_rounding fl = (fl 0 = 0
     \<and> (\<forall>x. 1 / 2 ^ 1022 \<le> \<bar>x\<bar> \<and> \<bar>x\<bar> \<le> 2 ^ 1023 \<longrightarrow> \<bar>fl x - x\<bar> \<le> \<bar>x\<bar> / 2 ^ 53))"

text \<open>Texts joined with single separating spaces: what the specification asks of a transcript.\<close>

fun join_space :: "string list \<Rightarrow> string" where
  "join_space [] = []"
| "join_space [t] = t"
| "join_space (t # ts) = t @ '' '' @ join_space ts"

text \<open>The first output of a \<^verbatim>\<open>complete\<close> message, trimmed, and its numeric chunk id.\<close>

fun completed_text :: "cevent \<Rightarrow> string" where
  "completed_text (FromWorker (Complete c (out0 # rest))) = js_trim out0"
| "completed_text ev = []"

fun is_complete :: "cevent \<Rightarrow> bool" where
  "is_complete (FromWorker (Complete c (out0 # rest))) = True"
| "is_complete ev = False"

fun completed_id :: "cevent \<Rightarrow> int" where
  "completed_id (FromWorker (Complete (Num n) output)) = n"
| "completed_id ev = - 1"

text \<open>
  The transcripts of the realtime mode: the empty text, set on reset, on a change of mode
  and on a change of language, and every text the realtime listener makes of one.
\<close>

inductive realtime_transcript :: "string \<Rightarrow> bool" where
  cleared: "realtime_transcript []"
| merged: "realtime_transcript (transcript s) \<Longrightarrow>
     realtime_transcript (transcript (handleWorkerMessage_realtime s m))"

text \<open>A main thread whose model is loaded, in file mode and in realtime mode, for concrete runs.\<close>

definition ready_file :: coord where
  "ready_file = \<lparr> status = Some ''ready'', transcript = [], mode = FileMode, ui_language = ''en'',
     chunkResolvers = None, nextPromise = 0, resolved = [], processingProgress = 0,
     progressLog = [], isProcessingFullFile = False, isProcessing_file = False,
     isProcessing = False, batchLog = [], outbox = [], awaiting = None, uncaught = [] \<rparr>"

definition ready_realtime :: "string \<Rightarrow> coord" where
  "ready_realtime t = ready_file\<lparr> mode := RealtimeMode, transcript := t \<rparr>"

text \<open>
  Silent audio of a given number of seconds, the session that
  \<^verbatim>\<open>processAudioFileWithFile\<close> starts for a decoded file on \<open>ready_file\<close>, and the
  state of the session on a 65-second file once chunk 0 has completed.
\<close>

definition silence :: "nat \<Rightarrow> real list" where
  "silence seconds = replicate (seconds * WHISPER_SAMPLING_RATE) 0"

definition file_session :: "(real \<Rightarrow> real) \<Rightarrow> real list \<Rightarrow> coord" where
  "file_session fl samples = onloadend fl (processAudioFileWithFile ready_file) (Some samples)"

definition three_chunks :: coord where
  "three_chunks = crun (\<lambda>x. x) (file_session (\<lambda>x. x) (silence 65))
     [FromWorker (Complete (Num 0) ['' Hello''])]"

text \<open>The progress value \<^verbatim>\<open>Math.round(c / totalChunks * 100)\<close> that the inner loop computes for chunk \<open>c\<close>.\<close>

definition progress_at :: "(real \<Rightarrow> real) \<Rightarrow> nat \<Rightarrow> nat \<Rightarrow> int" where
  "progress_at fl totalChunks c = js_round (fl (fl (real c / real totalChunks) * 100))"

text \<open>Every resolver of the map belongs to a promise created so far, and a resolver of a promise
  created since \<open>base\<close> is stored under the index of its chunk.\<close>

definition known :: "nat \<Rightarrow> nat \<Rightarrow> (chunk_id \<times> nat) list option \<Rightarrow> bool" where
  "known base bound r = (case r of None \<Rightarrow> True
     | Some m \<Rightarrow> list_all (\<lambda>kv. snd kv < bound \<and> (base \<le> snd kv \<longrightarrow> fst kv = Num (int (snd kv - base)))) m)"

text \<open>What a session of \<^verbatim>\<open>processChunks\<close> on \<open>samples\<close> with \<open>N\<close> chunks, started in state
  \<open>s0\<close>, has logged and sent when it has created \<open>nextPromise s - nextPromise s0\<close> promises.\<close>

definition sess_log :: "(real \<Rightarrow> real) \<Rightarrow> coord \<Rightarrow> real list \<Rightarrow> nat \<Rightarrow> coord \<Rightarrow> bool" where
  "sess_log fl s0 samples N s =
    (nextPromise s0 \<le> nextPromise s \<and> nextPromise s - nextPromise s0 \<le> N
   \<and> outbox s = outbox s0
        @ map (chunk_request samples (ui_language s0)) [0..<nextPromise s - nextPromise s0]
   \<and> progressLog s = progressLog s0
        @ map (progress_at fl N) [0..<nextPromise s - nextPromise s0]
        @ (if awaiting s = None then [100] else [])
   \<and> batchLog s = batchLog s0
        @ map (\<lambda>w. (min MAX_PARALLEL_CHUNKS (N - 3 * w), 3 * w))
            [0..<(nextPromise s - nextPromise s0 + 2) div 3]
   \<and> ui_language s = ui_language s0)"

text \<open>Where the session stands: finished, after a terminal message for every chunk; or suspended on
  the batch that starts at a multiple of three, after a terminal message for every earlier chunk.\<close>

definition sess_wait :: "coord \<Rightarrow> real list \<Rightarrow> nat \<Rightarrow> cevent list \<Rightarrow> coord \<Rightarrow> bool" where
  "sess_wait s0 samples N evs s =
     (case awaiting s of
         None \<Rightarrow> nextPromise s - nextPromise s0 = N \<and> (\<forall>d<N. has_terminal evs d)
           \<and> \<not> isProcessingFullFile s
       | Some t \<Rightarrow> t_audio t = samples \<and> t_totalChunks t = N \<and> t_i t < N \<and> 3 dvd t_i t
           \<and> nextPromise s - nextPromise s0 = min (t_i t + 3) N
           \<and> t_chunkPromises t = map (\<lambda>c. nextPromise s0 + c) [t_i t..<min (t_i t + 3) N]
           \<and> (\<forall>d<t_i t. has_terminal evs d)
           \<and> isProcessingFullFile s = isProcessingFullFile s0)"

text \<open>Every resolved promise has been created, and one created by the session was resolved by a
  terminal message for its chunk.\<close>

definition sess_res :: "coord \<Rightarrow> cevent list \<Rightarrow> coord \<Rightarrow> bool" where
  "sess_res s0 evs s =
     list_all (\<lambda>p. p < nextPromise s
                   \<and> (nextPromise s0 \<le> p \<longrightarrow> has_terminal evs (p - nextPromise s0)))
        (resolved s)"

text \<open>The invariant of a session.\<close>

definition sess :: "(real \<Rightarrow> real) \<Rightarrow> coord \<Rightarrow> real list \<Rightarrow> nat \<Rightarrow> cevent list \<Rightarrow> coord \<Rightarrow> bool" where
  "sess fl s0 samples N evs s =
    (sess_log fl s0 samples N s \<and> sess_wait s0 samples N evs s \<and> sess_res s0 evs s
     \<and> known (nextPromise s0) (nextPromise s) (chunkResolvers s))"

text \<open>A \<^verbatim>\<open>complete\<close> message for a numeric chunk with one output, for concrete runs.\<close>

definition completion :: "int \<Rightarrow> string \<Rightarrow> cevent" where
  "completion n t = FromWorker (Complete (Num n) [t])"

text \<open>What a completion adds to the transcript.\<close>

definition piece :: "cevent \<Rightarrow> string" where
  "piece ev = (if completed_text ev = [] then [] else '' '' @ completed_text ev)"

text \<open>An \<^verbatim>\<open>error\<close> message from the worker.\<close>

fun is_error :: "cevent \<Rightarrow> bool" where
  "is_error (FromWorker (Error e c)) = True"
| "is_error ev = False"

text \<open>
  A whole session on a 65-second file, worker included. The worker receives the three
  \<^verbatim>\<open>generate\<close> messages that \<^verbatim>\<open>processChunks\<close> posts, in the order they were
  posted; each chunk streams one token and is decoded to one text with the leading space
  of Whisper's output, and the queue is served by its timer. \<open>hello_stream\<close> is what the
  worker posts on these events, as the main thread receives it.
\<close>

definition hello_events :: "wevent list" where
  "hello_events =
     map Message (outbox (file_session (\<lambda>x. x) (silence 65)))
     @ [Token '' Hello'', Finish (Success ['' Hello'']), Timeout,
        Token '' there'', Finish (Success ['' there'']), Timeout,
        Token '' world'', Finish (Success ['' world''])]"

definition hello_stream :: "cevent list" where
  "hello_stream = map FromWorker (posted (wrun hello_events))"

section \<open>The worker's invariant\<close>

lemma scan_append:
  "scan cur (xs @ ys) = (case scan cur xs of None \<Rightarrow> None | Some c \<Rightarrow> scan c ys)"
  by (induction cur xs rule: scan.induct) auto

lemma last_started_snoc:
  "last_started d (xs @ [m]) = (case m of Start c \<Rightarrow> c | _ \<Rightarrow> last_started d xs)"
  by (induction d xs rule: last_started.induct) (auto split: wmsg.splits)

lemma starts_append: "starts (xs @ ys) = starts xs @ starts ys"
  by (induction xs rule: starts.induct) auto

lemma starts_terminal: "starts [terminal c out] = []"
  by (cases out) simp_all

lemma js_le_refl: "js_le c c"
  by (cases c) simp_all

lemma winv_init: "winv worker_init"
  by (simp add: winv_def worker_init_def in_flight_def)

lemma winv_generate: "winv s \<Longrightarrow> winv (generate s r)"
  by (auto simp: winv_def generate_def in_flight_def scan_append last_started_snoc)

lemma winv_callback: "winv s \<Longrightarrow> winv (callback_function s output)"
  by (auto simp: winv_def callback_function_def in_flight_def scan_append last_started_snoc
      split: list.splits)

lemma winv_settle: "winv s \<Longrightarrow> winv (settle s out)"
  by (cases out) (auto simp: winv_def settle_def in_flight_def scan_append last_started_snoc Let_def
      split: list.splits)

lemma winv_timeout:
  assumes "winv s"
  shows "winv (timeout s)"
proof (cases "timers s")
  case Nil
  with assms show ?thesis by (simp add: timeout_def)
next
  case (Cons t ts)
  with assms show ?thesis
    by (auto simp: timeout_def winv_def generate_def in_flight_def scan_append last_started_snoc)
qed

lemma winv_wstep: "winv s \<Longrightarrow> winv (wstep s ev)"
  by (cases ev) (simp_all add: winv_generate winv_callback winv_settle winv_timeout)

lemma winv_foldl: "winv s \<Longrightarrow> winv (foldl wstep s evs)"
  by (induction evs arbitrary: s) (simp_all add: winv_wstep)

lemma winv_wrun: "winv (wrun evs)"
  by (simp add: wrun_def winv_foldl winv_init)

lemma busy_no_start:
  "isCurrentlyProcessing s \<Longrightarrow> starts (posted (wstep s ev)) = starts (posted s)"
  by (cases ev; cases "timers s"; cases "suspended s")
     (auto simp: generate_def callback_function_def settle_def timeout_def starts_append
           starts_terminal Let_def split: list.splits)

lemma busy_generate:
  "isCurrentlyProcessing s \<Longrightarrow>
     suspended (generate s r) = suspended s \<and> posted (generate s r) = posted s \<and>
     isCurrentlyProcessing (generate s r) \<and>
     lastProcessedChunkId (generate s r) = lastProcessedChunkId s \<and>
     (processingQueue (generate s r) = processingQueue s \<or>
      processingQueue (generate s r) = processingQueue s @ [r])"
  by (simp add: generate_def)

lemma settle_lastProcessedChunkId:
  "lastProcessedChunkId (settle s out) = lastProcessedChunkId s"
  by (simp add: settle_def Let_def split: list.splits prod.splits)

lemmas wsimps = wrun_def worker_init_def generate_def settle_def timeout_def
  callback_function_def queued_def request_of_def in_flight_def

section \<open>Single flight\<close>

text \<open>
  Claim C1. Whatever sequence of events the worker runs (messages, streamed tokens, ends of
  inference calls, timers), at most one \<^verbatim>\<open>generate\<close> invocation is in flight,
  the flag is set exactly then, and the posted log never starts a chunk before the
  terminal message of the one in flight. A request that arrives while the flag is set is
  not started: the in-flight invocation and the log are unchanged, and the queue is
  unchanged (dropped) or longer by this request (queued). While the flag is set no event
  posts a \<^verbatim>\<open>start\<close>, so a queued chunk starts only after the terminal message.
\<close>

theorem single_flight:
  "length (suspended (wrun evs)) \<le> 1
   \<and> isCurrentlyProcessing (wrun evs) = (suspended (wrun evs) \<noteq> [])
   \<and> scan None (posted (wrun evs)) =
       Some (case in_flight (wrun evs) of [] \<Rightarrow> None | c # cs \<Rightarrow> Some c)
   \<and> (isCurrentlyProcessing (wrun evs) \<longrightarrow>
         suspended (generate (wrun evs) r) = suspended (wrun evs)
       \<and> posted (generate (wrun evs) r) = posted (wrun evs)
       \<and> (processingQueue (generate (wrun evs) r) = processingQueue (wrun evs)
          \<or> processingQueue (generate (wrun evs) r) = processingQueue (wrun evs) @ [r])
       \<and> starts (posted (wstep (wrun evs) ev)) = starts (posted (wrun evs)))"
proof -
  have "winv (wrun evs)" by (rule winv_wrun)
  then show ?thesis
    using busy_generate [of "wrun evs" r] busy_no_start [of "wrun evs" ev]
    by (simp add: winv_def)
qed

theorem single_flight_witness:
  "length (suspended (wrun [Message (request_of 0), Message (request_of 1)])) \<le> 1
   \<and> isCurrentlyProcessing (wrun [Message (request_of 0), Message (request_of 1)])
   \<and> in_flight (wrun [Message (request_of 0), Message (request_of 1)]) = [Num 0]
   \<and> processingQueue (wrun [Message (request_of 0), Message (request_of 1)]) = [request_of 1]
   \<and> suspended (generate (wrun [Message (request_of 0), Message (request_of 1)]) (request_of 2))
       = [(request_of 0, 0)]
   \<and> posted (generate (wrun [Message (request_of 0), Message (request_of 1)]) (request_of 2))
       = [Start (Num 0)]
   \<and> starts (posted (wstep (wrun [Message (request_of 0), Message (request_of 1)]) Timeout))
       = [Num 0]"
  using single_flight [of "[Message (request_of 0), Message (request_of 1)]" "request_of 2" Timeout]
  by (simp add: wsimps)

section \<open>Duplicate and stale submissions\<close>

text \<open>
  Claim C2, as amended. The check for a stale or duplicate id stands inside the branch
  \<^verbatim>\<open>if (isCurrentlyProcessing)\<close>. While a chunk is being processed, a submitted
  chunk whose id is \<^verbatim>\<open><=\<close> \<open>lastProcessedChunkId\<close>, or whose id is already in
  the queue, leaves the whole worker state unchanged: it is neither enqueued nor started
  and nothing is posted.
\<close>

theorem dedup_when_processing:
  "isCurrentlyProcessing s \<Longrightarrow>
   js_le (chunkId r) (lastProcessedChunkId s) \<or> queued (processingQueue s) (chunkId r) \<Longrightarrow>
   generate s r = s"
  by (simp add: generate_def)

theorem dedup_when_processing_witness:
  "isCurrentlyProcessing (wrun [Message (request_of 4), Message (request_of 7)])
   \<and> js_le (chunkId (request_of 3))
        (lastProcessedChunkId (wrun [Message (request_of 4), Message (request_of 7)]))
   \<and> queued (processingQueue (wrun [Message (request_of 4), Message (request_of 7)]))
        (chunkId (request_of 7))
   \<and> generate (wrun [Message (request_of 4), Message (request_of 7)]) (request_of 3)
       = wrun [Message (request_of 4), Message (request_of 7)]
   \<and> generate (wrun [Message (request_of 4), Message (request_of 7)]) (request_of 7)
       = wrun [Message (request_of 4), Message (request_of 7)]"
  using dedup_when_processing
          [of "wrun [Message (request_of 4), Message (request_of 7)]" "request_of 3"]
        dedup_when_processing
          [of "wrun [Message (request_of 4), Message (request_of 7)]" "request_of 7"]
  by (simp add: wsimps)

text \<open>
  The claim as stated, for every scheduler state, fails on an idle worker: after chunk 0
  has completed, \<open>lastProcessedChunkId\<close> is 0, and a second submission of id 0 is
  started again.
\<close>

theorem dedup_idle_counterexample:
  "js_le (chunkId (request_of 0))
      (lastProcessedChunkId (wrun [Message (request_of 0), Finish (Success [''a''])]))
   \<and> posted (wrun [Message (request_of 0), Finish (Success [''a''])])
        = [Start (Num 0), Complete (Num 0) [''a'']]
   \<and> posted (generate (wrun [Message (request_of 0), Finish (Success [''a''])]) (request_of 0))
        = [Start (Num 0), Complete (Num 0) [''a''], Start (Num 0)]
   \<and> generate (wrun [Message (request_of 0), Finish (Success [''a''])]) (request_of 0)
        \<noteq> wrun [Message (request_of 0), Finish (Success [''a''])]"
  by (simp add: wsimps)

section \<open>The last processed chunk id\<close>

text \<open>
  Claim C3, as amended. \<open>lastProcessedChunkId\<close> is the id of the chunk started last,
  not a maximum: in every reachable state it is the id of the last \<^verbatim>\<open>start\<close>
  message; a \<^verbatim>\<open>generate\<close> call made while a chunk is being processed leaves it
  unchanged and a call made while idle assigns the submitted id. Across a call it is
  therefore non-decreasing (under \<^verbatim>\<open><=\<close>) exactly when the worker is processing
  or the submitted id is at least the current value.
\<close>

theorem lastProcessedChunkId_is_last_start:
  "lastProcessedChunkId (wrun evs) = last_started (Num (- 1)) (posted (wrun evs))
   \<and> lastProcessedChunkId (generate s r)
       = (if isCurrentlyProcessing s then lastProcessedChunkId s else chunkId r)
   \<and> js_le (lastProcessedChunkId s) (lastProcessedChunkId (generate s r))
       = (isCurrentlyProcessing s \<or> js_le (lastProcessedChunkId s) (chunkId r))"
proof -
  have "winv (wrun evs)" by (rule winv_wrun)
  then show ?thesis
    by (simp add: winv_def generate_def js_le_refl)
qed

text \<open>
  The claim as stated fails for a submission that arrives while the worker is idle: after
  chunk 5 has completed, submitting chunk 3 lowers the value from 5 to 3.
\<close>

theorem lastProcessedChunkId_counterexample:
  "lastProcessedChunkId (wrun [Message (request_of 5), Finish (Success [''a''])]) = Num 5
   \<and> lastProcessedChunkId
        (wrun [Message (request_of 5), Finish (Success [''a'']), Message (request_of 3)]) = Num 3
   \<and> \<not> js_le (lastProcessedChunkId (wrun [Message (request_of 5), Finish (Success [''a''])]))
          (lastProcessedChunkId
             (wrun [Message (request_of 5), Finish (Success [''a'']), Message (request_of 3)]))"
  by (simp add: wsimps)

section \<open>The end of an inference call\<close>

text \<open>
  What the end of the in-flight call does, on success and on failure alike: one terminal
  message for the chunk's id, the flag cleared, and the head of the queue (if any) moved
  into a timer; it is not started in this step.
\<close>

lemma settle_in_flight:
  "suspended s = [(r, k)] \<Longrightarrow>
     posted (settle s out) = posted s @ [terminal (chunkId r) out]
   \<and> \<not> isCurrentlyProcessing (settle s out)
   \<and> suspended (settle s out) = []
   \<and> processingQueue (settle s out) = tl (processingQueue s)
   \<and> timers (settle s out) = timers s @ take 1 (processingQueue s)"
  by (simp add: settle_def Let_def split: list.splits)

text \<open>When the timer of the dequeued head is the next event and no older timer is pending,
  the head is started.\<close>

lemma settle_then_timeout:
  "suspended s = [(r, k)] \<Longrightarrow> timers s = [] \<Longrightarrow> processingQueue s = nextItem # q \<Longrightarrow>
     posted (timeout (settle s out))
       = posted s @ [terminal (chunkId r) out, Start (chunkId nextItem)]
   \<and> suspended (timeout (settle s out)) = [(nextItem, 0)]
   \<and> processingQueue (timeout (settle s out)) = q"
  by (simp add: settle_def timeout_def generate_def Let_def)

text \<open>
  Claim C8, evaluated where the code departs from it. Chunk 0 is in flight and chunk 1 is
  queued; chunk 0 completes, so chunk 1 is shifted out of the queue into a timer; a
  message for chunk 2 is handled before that timer fires and, the flag being clear, is
  started; the timer then calls \<^verbatim>\<open>generate\<close> for chunk 1 while chunk 2 is
  processing, and chunk 1 is skipped as already processed (1 \<^verbatim>\<open><=\<close> 2). Chunk 1 is
  no longer queued, is not in a timer, and is never started: the log ends with chunk 2.
\<close>

theorem dequeued_chunk_lost:
  "processingQueue (wrun [Message (request_of 0), Message (request_of 1)]) = [request_of 1]
   \<and> timers (wrun [Message (request_of 0), Message (request_of 1), Finish (Success [''a''])])
        = [request_of 1]
   \<and> \<not> isCurrentlyProcessing
          (wrun [Message (request_of 0), Message (request_of 1), Finish (Success [''a''])])
   \<and> wrun [Message (request_of 0), Message (request_of 1), Finish (Success [''a'']),
            Message (request_of 2), Timeout]
       = \<lparr> isCurrentlyProcessing = True, lastProcessedChunkId = Num 2, processingQueue = [],
           suspended = [(request_of 2, 0)], timers = [],
           posted = [Start (Num 0), Complete (Num 0) [''a''], Start (Num 2)] \<rparr>
   \<and> wrun [Message (request_of 0), Message (request_of 1), Finish (Success [''a'']),
            Message (request_of 2), Timeout, Finish (Success [''c''])]
       = \<lparr> isCurrentlyProcessing = False, lastProcessedChunkId = Num 2, processingQueue = [],
           suspended = [], timers = [],
           posted = [Start (Num 0), Complete (Num 0) [''a''], Start (Num 2),
                     Complete (Num 2) [''c'']] \<rparr>"
  by (simp add: wsimps)

section \<open>Re-submitting a failed id\<close>

text \<open>
  Claim C10, as amended. \<open>lastProcessedChunkId\<close> is advanced when processing begins:
  while a chunk is in flight the value is already that chunk's id, and the end of the
  call, failure included, leaves it as it is. A later submission of the same id made while
  a chunk is being processed is dropped exactly when the id is \<^verbatim>\<open><=\<close> the current
  value or is already queued, and is queued otherwise; a submission made while idle is
  started at once.
\<close>

theorem resubmission_of_failed_id:
  "(in_flight (wrun evs) = [c] \<longrightarrow>
        lastProcessedChunkId (wrun evs) = c
      \<and> lastProcessedChunkId (settle (wrun evs) (Failure e)) = c)
   \<and> (isCurrentlyProcessing s \<longrightarrow>
        (generate s r = s)
          = (js_le (chunkId r) (lastProcessedChunkId s) \<or> queued (processingQueue s) (chunkId r))
      \<and> (generate s r \<noteq> s \<longrightarrow> generate s r = s\<lparr> processingQueue := processingQueue s @ [r] \<rparr>))
   \<and> (\<not> isCurrentlyProcessing s \<longrightarrow>
        suspended (generate s r) = suspended s @ [(r, 0)]
      \<and> posted (generate s r) = posted s @ [Start (chunkId r)]
      \<and> lastProcessedChunkId (generate s r) = chunkId r)"
proof -
  have "winv (wrun evs)" by (rule winv_wrun)
  then have a: "in_flight (wrun evs) = [c] \<Longrightarrow> lastProcessedChunkId (wrun evs) = c"
    by (auto simp: winv_def in_flight_def)
  have b: "s\<lparr> processingQueue := processingQueue s @ [r] \<rparr> \<noteq> s"
  proof
    assume "s\<lparr> processingQueue := processingQueue s @ [r] \<rparr> = s"
    then have "processingQueue (s\<lparr> processingQueue := processingQueue s @ [r] \<rparr>)
                 = processingQueue s" by simp
    then show False by simp
  qed
  show ?thesis
    using a b by (simp add: generate_def settle_lastProcessedChunkId)
qed

theorem resubmission_of_failed_id_witness:
  "in_flight (wrun [Message (request_of 3)]) = [Num 3]
   \<and> lastProcessedChunkId (wrun [Message (request_of 3)]) = Num 3
   \<and> lastProcessedChunkId (settle (wrun [Message (request_of 3)]) (Failure ''boom'')) = Num 3
   \<and> isCurrentlyProcessing
        (wrun [Message (request_of 3), Finish (Failure ''boom''), Message (request_of 4)])
   \<and> generate (wrun [Message (request_of 3), Finish (Failure ''boom''), Message (request_of 4)])
        (request_of 3)
       = wrun [Message (request_of 3), Finish (Failure ''boom''), Message (request_of 4)]
   \<and> \<not> isCurrentlyProcessing (wrun [Message (request_of 3), Finish (Failure ''boom'')])
   \<and> suspended (generate (wrun [Message (request_of 3), Finish (Failure ''boom'')]) (request_of 3))
       = [(request_of 3, 0)]"
  using resubmission_of_failed_id
          [of "[Message (request_of 3)]" "Num 3" "''boom''"
              "wrun [Message (request_of 3), Finish (Failure ''boom''), Message (request_of 4)]"
              "request_of 3"]
        resubmission_of_failed_id
          [of "[Message (request_of 3)]" "Num 3" "''boom''"
              "wrun [Message (request_of 3), Finish (Failure ''boom'')]" "request_of 3"]
  by (simp add: wsimps)

text \<open>
  The claim as stated fails: chunk 3 fails; submitted again while the worker is idle it is
  started at once; submitted again while chunk 1, started after the failure, is being
  processed, it is queued, and started once chunk 1 has ended.
\<close>

theorem resubmission_counterexample:
  "posted (wrun [Message (request_of 3), Finish (Failure ''boom'')])
     = [Start (Num 3), Error ''Error processing audio segment 3: boom'' (Num 3)]
   \<and> posted (wrun [Message (request_of 3), Finish (Failure ''boom''), Message (request_of 3)])
     = [Start (Num 3), Error ''Error processing audio segment 3: boom'' (Num 3), Start (Num 3)]
   \<and> isCurrentlyProcessing
        (wrun [Message (request_of 3), Finish (Failure ''boom''), Message (request_of 1)])
   \<and> processingQueue
        (wrun [Message (request_of 3), Finish (Failure ''boom''), Message (request_of 1),
               Message (request_of 3)]) = [request_of 3]
   \<and> posted
        (wrun [Message (request_of 3), Finish (Failure ''boom''), Message (request_of 1),
               Message (request_of 3), Finish (Success [''a'']), Timeout])
       = [Start (Num 3), Error ''Error processing audio segment 3: boom'' (Num 3),
          Start (Num 1), Complete (Num 1) [''a''], Start (Num 3)]"
  by (simp add: wsimps string_of_nat.simps digit_char_def)

section \<open>The realtime transcript\<close>

lemma js_trim_Nil: "js_trim [] = []"
  by (simp add: js_trim_def)

lemma js_trim_fixed_iff:
  "js_trim x = x \<longleftrightarrow> x = [] \<or> (\<not> is_ws (hd x) \<and> \<not> is_ws (last x))"
proof (cases "x = []")
  case True
  then show ?thesis by (simp add: js_trim_def)
next
  case False
  show ?thesis
  proof
    assume fx: "js_trim x = x"
    let ?y = "dropWhile is_ws x"
    let ?z = "dropWhile is_ws (rev ?y)"
    from fx have xz: "x = rev ?z" by (simp add: js_trim_def)
    then have "length x = length ?z" by (metis length_rev)
    moreover have "length ?z \<le> length ?y" by (metis length_dropWhile_le length_rev)
    moreover have "length ?y \<le> length x" by (rule length_dropWhile_le)
    ultimately have ly: "length ?y = length x" by linarith
    have "takeWhile is_ws x @ ?y = x" by simp
    then have "length (takeWhile is_ws x) + length ?y = length x" by (metis length_append)
    with ly have "takeWhile is_ws x = []" by simp
    then have hx: "\<not> is_ws (hd x)" using False by (cases x) (auto split: if_splits)
    from False xz have "?z \<noteq> []" by (metis rev.simps(1))
    then have "\<not> is_ws (hd ?z)" by (rule hd_dropWhile)
    moreover from xz \<open>?z \<noteq> []\<close> have "last x = hd ?z" by (metis last_rev)
    ultimately show "x = [] \<or> (\<not> is_ws (hd x) \<and> \<not> is_ws (last x))" using hx by simp
  next
    assume "x = [] \<or> (\<not> is_ws (hd x) \<and> \<not> is_ws (last x))"
    with False have h: "\<not> is_ws (hd x)" and l: "\<not> is_ws (last x)" by auto
    from h False have "dropWhile is_ws x = x" by (cases x) auto
    moreover from l False have "dropWhile is_ws (rev x) = rev x"
      by (cases "rev x") (auto simp: hd_rev)
    ultimately show "js_trim x = x" by (simp add: js_trim_def)
  qed
qed

lemma js_trim_idem: "js_trim (js_trim x) = js_trim x"
proof -
  let ?y = "dropWhile is_ws x"
  let ?z = "dropWhile is_ws (rev ?y)"
  have t: "js_trim x = rev ?z" by (simp add: js_trim_def)
  show ?thesis
  proof (cases "?z = []")
    case True
    with t have "js_trim x = []" by simp
    then show ?thesis by (metis js_trim_Nil)
  next
    case False
    then have hz: "\<not> is_ws (hd ?z)" by (rule hd_dropWhile)
    from False have yn: "?y \<noteq> []" by (metis dropWhile.simps(1) rev.simps(1))
    then have hy: "\<not> is_ws (hd ?y)" by (rule hd_dropWhile)
    obtain us where "rev ?y = us @ ?z" by (metis takeWhile_dropWhile_id)
    then have "?y = rev ?z @ rev us" by (metis rev_append rev_rev_ident)
    with False have "hd ?y = hd (rev ?z)" by (metis hd_append2 rev_is_Nil_conv)
    with hy have "\<not> is_ws (hd (rev ?z))" by simp
    moreover from False have "last (rev ?z) = hd ?z" by (metis last_rev)
    ultimately have "js_trim (rev ?z) = rev ?z" using hz by (metis js_trim_fixed_iff)
    with t show ?thesis by simp
  qed
qed

lemma js_trim_append_space:
  assumes "js_trim a = a" "js_trim b = b" "a \<noteq> []" "b \<noteq> []"
  shows "js_trim (a @ '' '' @ b) = a @ '' '' @ b"
  using assms by (simp add: js_trim_fixed_iff)

lemma updater_trimmed:
  assumes "js_trim out = out" "out \<noteq> []"
  shows "js_trim (updater out p) = updater out p"
  using assms js_trim_append_space [of "js_trim p" out]
  by (simp add: updater_def Let_def js_trim_idem)

lemma realtime_step_trimmed:
  "js_trim (transcript s) = transcript s \<Longrightarrow>
   js_trim (transcript (handleWorkerMessage_realtime s m)) = transcript (handleWorkerMessage_realtime s m)"
  by (cases m)
     (auto simp: handleWorkerMessage_realtime_def Let_def updater_trimmed js_trim_idem
           split: list.splits)

lemma realtime_transcript_trimmed: "realtime_transcript t \<Longrightarrow> js_trim t = t"
proof (induction rule: realtime_transcript.induct)
  case cleared
  show ?case by (rule js_trim_Nil)
next
  case (merged s m)
  then show ?case by (simp add: realtime_step_trimmed)
qed

text \<open>
  Claim C7, as amended. Let \<open>r\<close> be the first output of a \<^verbatim>\<open>complete\<close> message for
  the realtime chunk and \<open>t\<close> a transcript of the realtime mode. The listener works with
  \<open>r\<close> trimmed throughout. If \<open>r\<close> trimmed is empty or is the marker
  \<^verbatim>\<open>[BLANK_AUDIO]\<close> the transcript is unchanged; if \<open>t\<close> is empty the new transcript
  is \<open>r\<close> trimmed; if \<open>t\<close> already ends with \<open>r\<close> trimmed the transcript is unchanged;
  otherwise the new transcript is \<open>t\<close>, one space, and \<open>r\<close> trimmed.
\<close>

theorem realtime_merge:
  assumes "realtime_transcript (transcript s)"
  shows "transcript (handleWorkerMessage_realtime s (Complete Realtime (r # rest))) =
     (if js_trim r = [] \<or> js_trim r = ''[BLANK_AUDIO]'' then transcript s
      else if transcript s = [] then js_trim r
      else if endsWith (transcript s) (js_trim r) then transcript s
      else transcript s @ '' '' @ js_trim r)"
proof -
  from assms have "js_trim (transcript s) = transcript s"
    by (rule realtime_transcript_trimmed)
  then show ?thesis
    by (simp add: handleWorkerMessage_realtime_def updater_def Let_def)
qed

lemma realtime_transcript_hello: "realtime_transcript ''hello''"
proof -
  have "realtime_transcript (transcript (ready_realtime []))"
    by (simp add: ready_realtime_def ready_file_def cleared)
  then have "realtime_transcript
      (transcript (handleWorkerMessage_realtime (ready_realtime []) (Complete Realtime ['' hello''])))"
    by (rule merged)
  then show ?thesis
    by (simp add: handleWorkerMessage_realtime_def updater_def Let_def ready_realtime_def
          ready_file_def js_trim_def is_ws_def)
qed

lemma realtime_transcript_hello_world: "realtime_transcript ''hello world''"
proof -
  have "realtime_transcript (transcript (ready_realtime ''hello''))"
    by (simp add: ready_realtime_def ready_file_def realtime_transcript_hello)
  then have "realtime_transcript
      (transcript (handleWorkerMessage_realtime (ready_realtime ''hello'') (Complete Realtime ['' world''])))"
    by (rule merged)
  then show ?thesis
    by (simp add: handleWorkerMessage_realtime_def updater_def Let_def ready_realtime_def
          ready_file_def js_trim_def is_ws_def endsWith_def)
qed

theorem realtime_merge_witness:
  "realtime_transcript (transcript (ready_realtime ''hello''))
   \<and> realtime_transcript (transcript (ready_realtime ''hello world''))
   \<and> transcript (handleWorkerMessage_realtime (ready_realtime ''hello'')
        (Complete Realtime [''[BLANK_AUDIO]''])) = ''hello''
   \<and> transcript (handleWorkerMessage_realtime (ready_realtime ''hello world'')
        (Complete Realtime [''world''])) = ''hello world''
   \<and> transcript (handleWorkerMessage_realtime (ready_realtime ''hello'')
        (Complete Realtime [''there''])) = ''hello there''
   \<and> transcript (handleWorkerMessage_realtime (ready_realtime [])
        (Complete Realtime ['' there ''])) = ''there''"
proof -
  have h: "realtime_transcript (transcript (ready_realtime ''hello''))"
    by (simp add: ready_realtime_def ready_file_def realtime_transcript_hello)
  have hw: "realtime_transcript (transcript (ready_realtime ''hello world''))"
    by (simp add: ready_realtime_def ready_file_def realtime_transcript_hello_world)
  have e: "realtime_transcript (transcript (ready_realtime []))"
    by (simp add: ready_realtime_def ready_file_def cleared)
  show ?thesis
    using h hw
      realtime_merge [OF h, of "''[BLANK_AUDIO]''" "[]"]
      realtime_merge [OF hw, of "''world''" "[]"]
      realtime_merge [OF h, of "''there''" "[]"]
      realtime_merge [OF e, of "'' there ''" "[]"]
    by (simp add: ready_realtime_def ready_file_def js_trim_def is_ws_def endsWith_def)
qed

text \<open>
  The claim as stated appends and compares \<open>r\<close> itself. Whisper's texts begin with a
  space. On the transcript \<^verbatim>\<open>'hello'\<close> and the result \<^verbatim>\<open>' there'\<close> the result
  trimmed is neither empty nor the marker and the transcript does not end with the
  result, so the claim gives the transcript, one space and the result, with two spaces
  between the words; the listener gives \<^verbatim>\<open>'hello there'\<close>. On the empty transcript
  and the result \<^verbatim>\<open>' there '\<close> the claim gives the result itself; the listener gives
  \<^verbatim>\<open>'there'\<close>. On the transcript \<^verbatim>\<open>'hello world'\<close> and the result \<^verbatim>\<open>'world '\<close>
  the transcript does not end with the result, so the claim appends it; the listener
  leaves the transcript unchanged.
\<close>

theorem realtime_merge_counterexample:
  "js_trim '' there'' \<noteq> [] \<and> js_trim '' there'' \<noteq> ''[BLANK_AUDIO]''
   \<and> \<not> endsWith ''hello'' '' there''
   \<and> transcript (handleWorkerMessage_realtime (ready_realtime ''hello'')
        (Complete Realtime ['' there''])) = ''hello there''
   \<and> transcript (handleWorkerMessage_realtime (ready_realtime ''hello'')
        (Complete Realtime ['' there''])) \<noteq> ''hello'' @ '' '' @ '' there''
   \<and> js_trim '' there '' \<noteq> [] \<and> js_trim '' there '' \<noteq> ''[BLANK_AUDIO]''
   \<and> transcript (handleWorkerMessage_realtime (ready_realtime [])
        (Complete Realtime ['' there ''])) = ''there''
   \<and> transcript (handleWorkerMessage_realtime (ready_realtime [])
        (Complete Realtime ['' there ''])) \<noteq> '' there ''
   \<and> js_trim ''world '' \<noteq> [] \<and> js_trim ''world '' \<noteq> ''[BLANK_AUDIO]''
   \<and> \<not> endsWith ''hello world'' ''world ''
   \<and> transcript (handleWorkerMessage_realtime (ready_realtime ''hello world'')
        (Complete Realtime [''world ''])) = ''hello world''
   \<and> transcript (handleWorkerMessage_realtime (ready_realtime ''hello world'')
        (Complete Realtime [''world ''])) \<noteq> ''hello world'' @ '' '' @ ''world ''"
  by (simp add: handleWorkerMessage_realtime_def updater_def Let_def ready_realtime_def
        ready_file_def js_trim_def is_ws_def endsWith_def)

section \<open>An error message on the main thread\<close>

lemmas csimps = onloadend_def processChunks_def for_loop_def loop_body_def resume_def
  processAudioFileWithFile_def ready_file_def crun_def deliver_def onMessageReceived_def
  handleWorkerMessage_file_def resolve_chunk_def assign_def slice_def js_round_def
  MAX_SAMPLES_def WHISPER_SAMPLING_RATE_def MAX_AUDIO_LENGTH_def MAX_PARALLEL_CHUNKS_def
  Let_def js_trim_def is_ws_def silence_def file_session_def

lemma map_of_filter_key: "map_of (filter (\<lambda>kv. fst kv \<noteq> c) m) c = None"
  by (induction m) auto

lemma map_of_filter_other: "d \<noteq> c \<Longrightarrow> map_of (filter (\<lambda>kv. fst kv \<noteq> c) m) d = map_of m d"
  by (induction m) auto

lemma deliver_error: "deliver s (Error data c) = onMessageReceived s (Error data c)"
  by (simp add: deliver_def handleWorkerMessage_file_def handleWorkerMessage_realtime_def
      Let_def split: mode.splits)

lemma settle_failure_posts:
  "suspended w = [(r, k)] \<Longrightarrow>
   posted (settle w (Failure e))
     = posted w @ [Error (''Error processing audio segment '' @ string_of_chunk_id (chunkId r)
                          @ '': '' @ e) (chunkId r)]"
  by (simp add: settle_def Let_def split: list.splits)

text \<open>
  Claim C9. The message the worker posts when an inference call fails is
  \<^verbatim>\<open>error\<close> with the failed chunk's id. On it, App's listener (the only listener that
  reacts to it) sets the status to \<^verbatim>\<open>'error'\<close> and replaces the whole transcript by
  \<^verbatim>\<open>Error: \<close> and the message text. When a waiter is pending for the id, its
  resolver is called once and its entry removed from the resolver map, the other entries
  staying; a second \<^verbatim>\<open>error\<close> for the same id finds no entry and resolves nothing.
\<close>

theorem error_replaces_transcript:
  "status (onMessageReceived s (Error data c)) = Some ''error''
   \<and> transcript (onMessageReceived s (Error data c)) = ''Error: '' @ data
   \<and> deliver s (Error data c) = onMessageReceived s (Error data c)
   \<and> (chunkResolvers s = Some m \<and> map_of m c = Some p \<longrightarrow>
         resolved (onMessageReceived s (Error data c)) = resolved s @ [p]
       \<and> chunkResolvers (onMessageReceived s (Error data c))
           = Some (filter (\<lambda>kv. fst kv \<noteq> c) m)
       \<and> map_of (filter (\<lambda>kv. fst kv \<noteq> c) m) c = None
       \<and> (d \<noteq> c \<longrightarrow> map_of (filter (\<lambda>kv. fst kv \<noteq> c) m) d = map_of m d)
       \<and> resolved (onMessageReceived (onMessageReceived s (Error data c)) (Error data' c))
           = resolved s @ [p])
   \<and> (suspended w = [(r, k)] \<longrightarrow>
         posted (settle w (Failure e))
           = posted w @ [Error (''Error processing audio segment '' @ string_of_chunk_id (chunkId r)
                                @ '': '' @ e) (chunkId r)])"
proof -
  have a: "status (onMessageReceived s (Error data c)) = Some ''error''"
    by (simp add: onMessageReceived_def resolve_chunk_def split: option.splits)
  have b: "transcript (onMessageReceived s (Error data c)) = ''Error: '' @ data"
    by (simp add: onMessageReceived_def resolve_chunk_def split: option.splits)
  have c: "chunkResolvers s = Some m \<and> map_of m c = Some p \<longrightarrow>
         resolved (onMessageReceived s (Error data c)) = resolved s @ [p]
       \<and> chunkResolvers (onMessageReceived s (Error data c))
           = Some (filter (\<lambda>kv. fst kv \<noteq> c) m)
       \<and> resolved (onMessageReceived (onMessageReceived s (Error data c)) (Error data' c))
           = resolved s @ [p]"
    by (simp add: onMessageReceived_def resolve_chunk_def map_of_filter_key)
  show ?thesis
    using a b c deliver_error [of s data c] settle_failure_posts [of w r k e]
      map_of_filter_key [of c m] map_of_filter_other [of d c m]
    by blast
qed

lemma three_chunks_state:
  "transcript three_chunks = '' Hello'' \<and> resolved three_chunks = [0]
   \<and> chunkResolvers three_chunks = Some [(Num 2, 2), (Num 1, 1)]
   \<and> status three_chunks = Some ''ready''"
  by (simp add: three_chunks_def csimps upt_rec)

theorem error_replaces_transcript_witness:
  "transcript three_chunks = '' Hello''
   \<and> chunkResolvers three_chunks = Some [(Num 2, 2), (Num 1, 1)]
   \<and> map_of [(Num 2, 2), (Num 1, 1 :: nat)] (Num 1) = Some 1
   \<and> status (onMessageReceived three_chunks
        (Error ''Error processing audio segment 1: boom'' (Num 1))) = Some ''error''
   \<and> transcript (onMessageReceived three_chunks
        (Error ''Error processing audio segment 1: boom'' (Num 1)))
       = ''Error: Error processing audio segment 1: boom''
   \<and> resolved (onMessageReceived three_chunks
        (Error ''Error processing audio segment 1: boom'' (Num 1))) = [0, 1]
   \<and> chunkResolvers (onMessageReceived three_chunks
        (Error ''Error processing audio segment 1: boom'' (Num 1))) = Some [(Num 2, 2)]
   \<and> suspended (wrun [Message (request_of 1)]) = [(request_of 1, 0)]
   \<and> posted (settle (wrun [Message (request_of 1)]) (Failure ''boom''))
       = [Start (Num 1), Error ''Error processing audio segment 1: boom'' (Num 1)]"
  using error_replaces_transcript
          [of three_chunks "''Error processing audio segment 1: boom''" "Num 1"
              "[(Num 2, 2), (Num 1, 1)]" 1 "Num 2" "''again''"
              "wrun [Message (request_of 1)]" "request_of 1" 0 "''boom''"]
        three_chunks_state
  by (simp add: wsimps string_of_nat.simps digit_char_def)

section \<open>The batches of \<^verbatim>\<open>processChunks\<close>\<close>

lemma loop_body_fields:
  "nextPromise (fst (loop_body fl samples N i acc j)) = Suc (nextPromise (fst acc))"
  "snd (loop_body fl samples N i acc j) = snd acc @ [nextPromise (fst acc)]"
  "outbox (fst (loop_body fl samples N i acc j))
     = outbox (fst acc) @ [chunk_request samples (ui_language (fst acc)) (i + j)]"
  "progressLog (fst (loop_body fl samples N i acc j))
     = progressLog (fst acc) @ [progress_at fl N (i + j)]"
  "resolved (fst (loop_body fl samples N i acc j)) = resolved (fst acc)"
  "ui_language (fst (loop_body fl samples N i acc j)) = ui_language (fst acc)"
  "batchLog (fst (loop_body fl samples N i acc j)) = batchLog (fst acc)"
  "awaiting (fst (loop_body fl samples N i acc j)) = awaiting (fst acc)"
  "isProcessingFullFile (fst (loop_body fl samples N i acc j)) = isProcessingFullFile (fst acc)"
  "transcript (fst (loop_body fl samples N i acc j)) = transcript (fst acc)"
  "status (fst (loop_body fl samples N i acc j)) = status (fst acc)"
  "mode (fst (loop_body fl samples N i acc j)) = mode (fst acc)"
  "chunkResolvers (fst (loop_body fl samples N i acc j))
     = Some (assign (case chunkResolvers (fst acc) of None \<Rightarrow> [] | Some m \<Rightarrow> m)
               (Num (int (i + j))) (nextPromise (fst acc)))"
  by (simp_all add: loop_body_def Let_def chunk_request_def progress_at_def)

lemma batch_fields:
  "nextPromise (fst (foldl (loop_body fl samples N i) (s, []) [0..<b])) = nextPromise s + b
   \<and> snd (foldl (loop_body fl samples N i) (s, []) [0..<b]) = map (\<lambda>j. nextPromise s + j) [0..<b]
   \<and> outbox (fst (foldl (loop_body fl samples N i) (s, []) [0..<b]))
       = outbox s @ map (\<lambda>j. chunk_request samples (ui_language s) (i + j)) [0..<b]
   \<and> progressLog (fst (foldl (loop_body fl samples N i) (s, []) [0..<b]))
       = progressLog s @ map (\<lambda>j. progress_at fl N (i + j)) [0..<b]
   \<and> resolved (fst (foldl (loop_body fl samples N i) (s, []) [0..<b])) = resolved s
   \<and> ui_language (fst (foldl (loop_body fl samples N i) (s, []) [0..<b])) = ui_language s
   \<and> batchLog (fst (foldl (loop_body fl samples N i) (s, []) [0..<b])) = batchLog s
   \<and> awaiting (fst (foldl (loop_body fl samples N i) (s, []) [0..<b])) = awaiting s
   \<and> isProcessingFullFile (fst (foldl (loop_body fl samples N i) (s, []) [0..<b]))
       = isProcessingFullFile s
   \<and> transcript (fst (foldl (loop_body fl samples N i) (s, []) [0..<b])) = transcript s
   \<and> status (fst (foldl (loop_body fl samples N i) (s, []) [0..<b])) = status s
   \<and> mode (fst (foldl (loop_body fl samples N i) (s, []) [0..<b])) = mode s"
  by (induction b) (simp_all add: loop_body_fields)

lemma known_assign:
  "known base bound r \<Longrightarrow> base \<le> bound \<Longrightarrow>
   known base (Suc bound) (Some (assign (case r of None \<Rightarrow> [] | Some m \<Rightarrow> m) (Num (int (bound - base))) bound))"
  by (auto simp: known_def assign_def list_all_iff split: option.splits)

lemma batch_known:
  "known base (nextPromise s) (chunkResolvers s) \<Longrightarrow> nextPromise s = base + i \<Longrightarrow>
   known base (nextPromise s + b)
     (chunkResolvers (fst (foldl (loop_body fl samples N i) (s, []) [0..<b])))"
proof (induction b)
  case 0
  then show ?case by simp
next
  case (Suc b)
  let ?r = "foldl (loop_body fl samples N i) (s, []) [0..<b]"
  have np: "nextPromise (fst ?r) = base + i + b"
    using batch_fields [of fl samples N i s b] Suc.prems by simp
  from Suc have k: "known base (base + i + b) (chunkResolvers (fst ?r))" by simp
  have "known base (Suc (base + i + b))
          (Some (assign (case chunkResolvers (fst ?r) of None \<Rightarrow> [] | Some m \<Rightarrow> m)
                   (Num (int ((base + i + b) - base))) (base + i + b)))"
    by (rule known_assign [OF k]) simp
  then show ?case
    using np Suc.prems by (simp add: loop_body_fields)
qed

lemma for_loop_done:
  "\<not> i < N \<Longrightarrow>
   for_loop fl s samples N i
     = s\<lparr> isProcessingFullFile := False, isProcessing_file := False,
          processingProgress := 100, progressLog := progressLog s @ [100], awaiting := None \<rparr>"
  by (simp add: for_loop_def)

lemma for_loop_batch:
  assumes "i < N"
  shows "awaiting (for_loop fl s samples N i)
           = Some \<lparr> t_audio = samples, t_totalChunks = N, t_i = i,
                    t_chunkPromises = map (\<lambda>j. nextPromise s + j) [0..<min 3 (N - i)] \<rparr>"
    and "nextPromise (for_loop fl s samples N i) = nextPromise s + min 3 (N - i)"
    and "outbox (for_loop fl s samples N i)
           = outbox s @ map (\<lambda>j. chunk_request samples (ui_language s) (i + j)) [0..<min 3 (N - i)]"
    and "progressLog (for_loop fl s samples N i)
           = progressLog s @ map (\<lambda>j. progress_at fl N (i + j)) [0..<min 3 (N - i)]"
    and "batchLog (for_loop fl s samples N i) = batchLog s @ [(min 3 (N - i), i)]"
    and "resolved (for_loop fl s samples N i) = resolved s"
    and "ui_language (for_loop fl s samples N i) = ui_language s"
    and "isProcessingFullFile (for_loop fl s samples N i) = isProcessingFullFile s"
    and "transcript (for_loop fl s samples N i) = transcript s"
    and "status (for_loop fl s samples N i) = status s"
    and "mode (for_loop fl s samples N i) = mode s"
  using assms
    batch_fields [of fl samples N i "s\<lparr> batchLog := batchLog s @ [(min 3 (N - i), i)] \<rparr>" "min 3 (N - i)"]
  by (simp_all add: for_loop_def Let_def MAX_PARALLEL_CHUNKS_def)

lemma for_loop_known:
  assumes "i < N" "known base (nextPromise s) (chunkResolvers s)" "nextPromise s = base + i"
  shows "known base (nextPromise s + min 3 (N - i)) (chunkResolvers (for_loop fl s samples N i))"
  using assms
    batch_known [of base "s\<lparr> batchLog := batchLog s @ [(min 3 (N - i), i)] \<rparr>" i "min 3 (N - i)"
                    fl samples N]
  by (simp add: for_loop_def Let_def MAX_PARALLEL_CHUNKS_def)

lemma map_shift_upt: "map (\<lambda>j. f (i + j)) [0..<b] = map f [i..<i + b]"
  by (induction b) simp_all

lemma has_terminal_snoc: "has_terminal evs d \<Longrightarrow> has_terminal (evs @ [e]) d"
  by (simp add: has_terminal_def)

lemma extend_upt:
  "xs = pre @ map f [0..<a] \<Longrightarrow> xs @ map (\<lambda>j. f (a + j)) [0..<b] = pre @ map f [0..<a + b]"
  using map_shift_upt [of f a b] upt_add_eq_append [of 0 a b] by simp

lemma extend_waves:
  fixes i b :: nat
  assumes "3 dvd i" "0 < b" "b \<le> 3"
    and "xs = pre @ map (\<lambda>w. (min MAX_PARALLEL_CHUNKS (N - 3 * w), 3 * w)) [0..<(i + 2) div 3]"
  shows "xs @ [(min 3 (N - i), i)]
           = pre @ map (\<lambda>w. (min MAX_PARALLEL_CHUNKS (N - 3 * w), 3 * w)) [0..<(i + b + 2) div 3]"
proof -
  from assms(1) obtain v where i: "i = 3 * v" by (auto simp: dvd_def)
  have a: "(i + 2) div 3 = v" unfolding i by simp
  have "b = 1 \<or> b = 2 \<or> b = 3" using assms(2,3) by arith
  then have c: "(i + b + 2) div 3 = Suc v" unfolding i by auto
  show ?thesis
    unfolding assms(4) a c by (simp add: MAX_PARALLEL_CHUNKS_def i)
qed

lemma sess_start:
  assumes "quiescent s0"
  shows "sess fl s0 samples N [] (processChunks fl s0 samples N)"
proof (cases "0 < N")
  case False
  then have N: "N = 0" by simp
  have d: "processChunks fl s0 samples N
     = s0\<lparr> isProcessingFullFile := False, isProcessing_file := False,
          processingProgress := 100, progressLog := progressLog s0 @ [100], awaiting := None \<rparr>"
    using False by (simp add: processChunks_def for_loop_done)
  have k: "known (nextPromise s0) (nextPromise s0) (chunkResolvers s0)"
    using assms by (auto simp: quiescent_def known_def list_all_iff split: option.splits)
  have r: "list_all (\<lambda>p. p < nextPromise s0
                   \<and> (nextPromise s0 \<le> p \<longrightarrow> has_terminal [] (p - nextPromise s0)))
        (resolved s0)"
    using assms by (auto simp: quiescent_def list_all_iff)
  show ?thesis
    unfolding d sess_def sess_log_def sess_wait_def sess_res_def using k r N by simp
next
  case True
  define s where "s = for_loop fl s0 samples N 0"
  have k: "known (nextPromise s0) (nextPromise s0) (chunkResolvers s0)"
    using assms by (auto simp: quiescent_def known_def list_all_iff split: option.splits)
  have r: "\<forall>p\<in>set (resolved s0). p < nextPromise s0"
    using assms by (simp add: quiescent_def list_all_iff)
  have "N = 1 \<or> N = 2 \<or> 3 \<le> N" using True by arith
  then have w: "(min 3 N + 2) div 3 = Suc 0" by auto
  note fb = for_loop_batch [OF True, of fl s0 samples, simplified, folded s_def]
  have kn: "known (nextPromise s0) (nextPromise s) (chunkResolvers s)"
    using for_loop_known [OF True, of "nextPromise s0" s0 fl samples] k fb(2) by (simp add: s_def)
  have 1: "nextPromise s0 \<le> nextPromise s \<and> nextPromise s - nextPromise s0 \<le> N"
    using fb(2) True by simp
  have 2: "outbox s = outbox s0
        @ map (chunk_request samples (ui_language s0)) [0..<nextPromise s - nextPromise s0]"
    using fb(2,3) by simp
  have 3: "progressLog s = progressLog s0
        @ map (progress_at fl N) [0..<nextPromise s - nextPromise s0]
        @ (if awaiting s = None then [100] else [])"
    using fb(1,2,4) by simp
  have 4: "batchLog s = batchLog s0
        @ map (\<lambda>w. (min MAX_PARALLEL_CHUNKS (N - 3 * w), 3 * w))
            [0..<(nextPromise s - nextPromise s0 + 2) div 3]"
    using fb(2,5) w by (simp add: MAX_PARALLEL_CHUNKS_def)
  have 5: "sess_res s0 [] s"
    using fb(2,6) r by (auto simp: sess_res_def list_all_iff)
  have 6: "sess_wait s0 samples N [] s"
    using fb(1,2,8) True
    by (simp add: sess_wait_def map_shift_upt [of "\<lambda>c. nextPromise s0 + c" 0, simplified])
  show ?thesis
    unfolding processChunks_def sess_def sess_log_def s_def [symmetric]
    using 1 2 3 4 5 6 kn fb(7) by blast
qed

lemma sess_wait_snoc: "sess_wait s0 samples N evs s \<Longrightarrow> sess_wait s0 samples N (evs @ [e]) s"
  by (auto simp: sess_wait_def has_terminal_snoc split: option.splits)

lemma sess_res_snoc: "sess_res s0 evs s \<Longrightarrow> sess_res s0 (evs @ [e]) s"
  by (auto simp: sess_res_def list_all_iff has_terminal_snoc)

lemma deliver_core:
  "nextPromise (deliver s m) = nextPromise s"
  "outbox (deliver s m) = outbox s"
  "progressLog (deliver s m) = progressLog s"
  "batchLog (deliver s m) = batchLog s"
  "ui_language (deliver s m) = ui_language s"
  "awaiting (deliver s m) = awaiting s"
  "isProcessingFullFile (deliver s m) = isProcessingFullFile s"
  "mode (deliver s m) = mode s"
  by (cases m; simp add: deliver_def onMessageReceived_def handleWorkerMessage_file_def
        handleWorkerMessage_realtime_def resolve_chunk_def Let_def
        split: option.splits list.splits mode.splits)+

lemma deliver_resolves:
  "(resolved (deliver s m) = resolved s \<and> chunkResolvers (deliver s m) = chunkResolvers s)
   \<or> (\<exists>c mm p. ((\<exists>out. m = Complete c out) \<or> (\<exists>e. m = Error e c))
         \<and> chunkResolvers s = Some mm \<and> map_of mm c = Some p
         \<and> resolved (deliver s m) = resolved s @ [p]
         \<and> chunkResolvers (deliver s m) = Some (filter (\<lambda>kv. fst kv \<noteq> c) mm))"
  by (cases m; simp add: deliver_def onMessageReceived_def handleWorkerMessage_file_def
        handleWorkerMessage_realtime_def resolve_chunk_def Let_def
        split: option.splits list.splits mode.splits)

lemma has_terminal_last:
  "(\<exists>out. m = Complete (Num (int d)) out) \<or> (\<exists>e. m = Error e (Num (int d))) \<Longrightarrow>
   has_terminal (evs @ [FromWorker m]) d"
  by (auto simp: has_terminal_def)

lemma known_filter:
  "known base n (Some mm) \<Longrightarrow> known base n (Some (filter P mm))"
  by (simp add: known_def list_all_iff)

lemma known_entry:
  "known base n (Some mm) \<Longrightarrow> map_of mm c = Some p \<Longrightarrow>
   p < n \<and> (base \<le> p \<longrightarrow> c = Num (int (p - base)))"
  by (auto simp: known_def list_all_iff dest!: map_of_SomeD)

lemma sess_deliver:
  assumes inv: "sess fl s0 samples N evs s"
  shows "sess fl s0 samples N (evs @ [FromWorker m]) (deliver s m)"
proof -
  from inv have lg: "sess_log fl s0 samples N s" and wt: "sess_wait s0 samples N evs s"
    and rs: "sess_res s0 evs s" and kn: "known (nextPromise s0) (nextPromise s) (chunkResolvers s)"
    by (simp_all add: sess_def)
  have 1: "sess_log fl s0 samples N (deliver s m)"
    using lg by (simp add: sess_log_def deliver_core)
  have 2: "sess_wait s0 samples N (evs @ [FromWorker m]) (deliver s m)"
    using sess_wait_snoc [OF wt, of "FromWorker m"]
    by (simp add: sess_wait_def deliver_core split: option.splits)
  have 34: "sess_res s0 (evs @ [FromWorker m]) (deliver s m)
            \<and> known (nextPromise s0) (nextPromise (deliver s m)) (chunkResolvers (deliver s m))"
    using deliver_resolves [of s m]
  proof
    assume "resolved (deliver s m) = resolved s \<and> chunkResolvers (deliver s m) = chunkResolvers s"
    then show ?thesis
      using sess_res_snoc [OF rs, of "FromWorker m"] kn by (simp add: sess_res_def deliver_core)
  next
    assume "\<exists>c mm p. ((\<exists>out. m = Complete c out) \<or> (\<exists>e. m = Error e c))
         \<and> chunkResolvers s = Some mm \<and> map_of mm c = Some p
         \<and> resolved (deliver s m) = resolved s @ [p]
         \<and> chunkResolvers (deliver s m) = Some (filter (\<lambda>kv. fst kv \<noteq> c) mm)"
    then obtain c mm p where tm: "(\<exists>out. m = Complete c out) \<or> (\<exists>e. m = Error e c)"
      and cr: "chunkResolvers s = Some mm" and mo: "map_of mm c = Some p"
      and r': "resolved (deliver s m) = resolved s @ [p]"
      and c': "chunkResolvers (deliver s m) = Some (filter (\<lambda>kv. fst kv \<noteq> c) mm)"
      by blast
    from kn cr have kmm: "known (nextPromise s0) (nextPromise s) (Some mm)" by simp
    from known_entry [OF kmm mo]
    have p: "p < nextPromise s" and pc: "nextPromise s0 \<le> p \<Longrightarrow> c = Num (int (p - nextPromise s0))"
      by simp_all
    have ht: "nextPromise s0 \<le> p \<Longrightarrow> has_terminal (evs @ [FromWorker m]) (p - nextPromise s0)"
      using tm pc by (intro has_terminal_last) auto
    have a: "sess_res s0 (evs @ [FromWorker m]) (deliver s m)"
      using sess_res_snoc [OF rs, of "FromWorker m"] p ht
      by (simp add: sess_res_def r' deliver_core)
    have b: "known (nextPromise s0) (nextPromise (deliver s m)) (chunkResolvers (deliver s m))"
      using known_filter [OF kmm] by (simp add: c' deliver_core)
    from a b show ?thesis ..
  qed
  from 1 2 34 show ?thesis by (simp add: sess_def)
qed

lemma sess_cleanup:
  assumes inv: "sess fl s0 samples N evs s"
  shows "sess fl s0 samples N (evs @ [Cleanup]) (s\<lparr> chunkResolvers := None \<rparr>)"
proof -
  from inv have lg: "sess_log fl s0 samples N s" and wt: "sess_wait s0 samples N evs s"
    and rs: "sess_res s0 evs s"
    by (simp_all add: sess_def)
  have 1: "sess_log fl s0 samples N (s\<lparr> chunkResolvers := None \<rparr>)"
    using lg by (simp add: sess_log_def)
  have 2: "sess_wait s0 samples N (evs @ [Cleanup]) (s\<lparr> chunkResolvers := None \<rparr>)"
    using sess_wait_snoc [OF wt, of Cleanup] by (simp add: sess_wait_def split: option.splits)
  have 3: "sess_res s0 (evs @ [Cleanup]) (s\<lparr> chunkResolvers := None \<rparr>)"
    using sess_res_snoc [OF rs, of Cleanup] by (simp add: sess_res_def)
  from 1 2 3 show ?thesis by (simp add: sess_def known_def)
qed

lemma map_plus_upt: "map ((+) (n + i)) [0..<b] = map ((+) (n::nat)) [i..<i + b]"
  by (induction b) (simp_all add: add.assoc)

lemma sess_res_grow:
  "sess_res s0 evs s \<Longrightarrow> resolved s' = resolved s \<Longrightarrow> nextPromise s \<le> nextPromise s' \<Longrightarrow>
   sess_res s0 evs s'"
  by (auto simp: sess_res_def list_all_iff)

lemma sess_resume:
  assumes inv: "sess fl s0 samples N evs s"
  shows "sess fl s0 samples N evs (resume fl s)"
proof (cases "awaiting s")
  case None
  with inv show ?thesis by (simp add: resume_def)
next
  case (Some t)
  show ?thesis
  proof (cases "list_all (\<lambda>p. p \<in> set (resolved s)) (t_chunkPromises t)")
    case False
    with inv Some show ?thesis by (simp add: resume_def)
  next
    case True
    define base where "base = nextPromise s0"
    define i where "i = t_i t"
    from inv have lg: "sess_log fl s0 samples N s" and wt: "sess_wait s0 samples N evs s"
      and rs: "sess_res s0 evs s" and kn: "known base (nextPromise s) (chunkResolvers s)"
      by (simp_all add: sess_def base_def)
    from wt Some have t: "t_audio t = samples" "t_totalChunks t = N"
      and iN: "i < N" and dv: "3 dvd i"
      and k: "nextPromise s - base = min (i + 3) N"
      and ps: "t_chunkPromises t = map (\<lambda>c. base + c) [i..<min (i + 3) N]"
      and before: "\<forall>d<i. has_terminal evs d"
      and flag: "isProcessingFullFile s = isProcessingFullFile s0"
      by (simp_all add: sess_wait_def base_def i_def)
    from lg have le: "base \<le> nextPromise s"
      and ob: "outbox s = outbox s0 @ map (chunk_request samples (ui_language s0)) [0..<nextPromise s - base]"
      and pl: "progressLog s = progressLog s0 @ map (progress_at fl N) [0..<nextPromise s - base]"
      and bl: "batchLog s = batchLog s0
        @ map (\<lambda>w. (min MAX_PARALLEL_CHUNKS (N - 3 * w), 3 * w)) [0..<(nextPromise s - base + 2) div 3]"
      and ul: "ui_language s = ui_language s0"
      using Some by (simp_all add: sess_log_def base_def)
    have res: "\<forall>p\<in>set (resolved s). base \<le> p \<longrightarrow> has_terminal evs (p - base)"
      using rs by (simp add: sess_res_def list_all_iff base_def)
    have upto: "\<forall>d<min (i + 3) N. has_terminal evs d"
    proof (intro allI impI)
      fix d assume d: "d < min (i + 3) N"
      show "has_terminal evs d"
      proof (cases "d < i")
        case True
        with before show ?thesis by simp
      next
        case False
        with d have "d \<in> set [i..<min (i + 3) N]" by simp
        then have "base + d \<in> (\<lambda>c. base + c) ` set [i..<min (i + 3) N]" by (rule imageI)
        then have "base + d \<in> set (t_chunkPromises t)" unfolding ps by (simp only: set_map)
        with \<open>list_all (\<lambda>p. p \<in> set (resolved s)) (t_chunkPromises t)\<close>
        have "base + d \<in> set (resolved s)" by (simp add: list_all_iff)
        from bspec [OF res this] have "has_terminal evs (base + d - base)" by simp
        then show ?thesis by simp
      qed
    qed
    let ?s1 = "s\<lparr> awaiting := None \<rparr>"
    have r: "resume fl s = for_loop fl ?s1 samples N (i + 3)"
      using Some True t by (simp add: resume_def i_def MAX_PARALLEL_CHUNKS_def)
    show ?thesis
    proof (cases "i + 3 < N")
      case False
      then have kN: "nextPromise s - base = N" using k iN by simp
      have d: "for_loop fl ?s1 samples N (i + 3)
        = ?s1\<lparr> isProcessingFullFile := False, isProcessing_file := False,
              processingProgress := 100, progressLog := progressLog ?s1 @ [100], awaiting := None \<rparr>"
        using False by (rule for_loop_done)
      have 1: "sess_log fl s0 samples N (resume fl s)"
        unfolding r d using le ob pl bl ul kN by (simp add: sess_log_def base_def)
      have 2: "sess_wait s0 samples N evs (resume fl s)"
        unfolding r d using kN upto False by (simp add: sess_wait_def base_def)
      have 3: "sess_res s0 evs (resume fl s)"
        unfolding r d using rs by (simp add: sess_res_def)
      have 4: "known (nextPromise s0) (nextPromise (resume fl s)) (chunkResolvers (resume fl s))"
        unfolding r d using kn by (simp add: base_def)
      from 1 2 3 4 show ?thesis by (simp add: sess_def)
    next
      case next_wave: True
      then have kk: "nextPromise s - base = i + 3" using k by simp
      with le have np: "nextPromise s = base + (i + 3)" by simp
      define b where "b = min 3 (N - (i + 3))"
      have b: "0 < b" "b \<le> 3" "i + 3 + b \<le> N" "min (i + 3 + 3) N = i + 3 + b"
        using next_wave by (simp_all add: b_def)
      have dv3: "3 dvd (i + 3)" using dv by simp
      note fb = for_loop_batch [OF next_wave, of fl ?s1 samples, simplified, folded b_def]
      have n': "nextPromise (resume fl s) = base + (i + 3 + b)"
        unfolding r using fb(2) np by simp
      have o': "outbox (resume fl s)
         = outbox s0 @ map (chunk_request samples (ui_language s0)) [0..<i + 3 + b]"
        unfolding r fb(3) ul using ob [unfolded kk] by (rule extend_upt)
      have p': "progressLog (resume fl s)
         = progressLog s0 @ map (progress_at fl N) [0..<i + 3 + b]"
        unfolding r fb(4) using pl [unfolded kk] by (rule extend_upt)
      have b': "batchLog (resume fl s)
         = batchLog s0 @ map (\<lambda>w. (min MAX_PARALLEL_CHUNKS (N - 3 * w), 3 * w))
             [0..<(i + 3 + b + 2) div 3]"
        unfolding r fb(5) using extend_waves [OF dv3 b(1,2) bl [unfolded kk]]
        by (simp only: b_def)
      have a': "awaiting (resume fl s)
         = Some \<lparr> t_audio = samples, t_totalChunks = N, t_i = i + 3,
                  t_chunkPromises = map (\<lambda>c. base + c) [i + 3..<i + 3 + b] \<rparr>"
        unfolding r fb(1) using np map_plus_upt [of base "i + 3" b]
        by simp
      have u': "ui_language (resume fl s) = ui_language s0"
        unfolding r using fb(7) ul by simp
      have f': "isProcessingFullFile (resume fl s) = isProcessingFullFile s0"
        unfolding r using fb(8) flag by simp
      have r': "resolved (resume fl s) = resolved s"
        unfolding r using fb(6) by simp
      have u3: "\<forall>d<i + 3. has_terminal evs d"
        using upto next_wave by simp
      have 1: "sess_log fl s0 samples N (resume fl s)"
        using n' o' p' b' a' b(3) u'
        by (simp add: sess_log_def base_def [symmetric])
      have 2: "sess_wait s0 samples N evs (resume fl s)"
        using a' n' next_wave dv3 b(4) u3 f'
        by (simp add: sess_wait_def base_def [symmetric])
      have 3: "sess_res s0 evs (resume fl s)"
        using rs r' by (rule sess_res_grow) (simp add: n' np)
      have k1: "known base (nextPromise ?s1) (chunkResolvers ?s1)"
        using kn by simp
      have n1: "nextPromise ?s1 = base + (i + 3)"
        using np by simp
      have 4: "known (nextPromise s0) (nextPromise (resume fl s)) (chunkResolvers (resume fl s))"
        using for_loop_known [OF next_wave k1 n1, of fl samples]
        unfolding r [symmetric] n' base_def [symmetric] b_def [symmetric] n1
        by (simp only: add.assoc)
      from 1 2 3 4 show ?thesis by (simp add: sess_def)
    qed
  qed
qed

lemma sess_cstep:
  "sess fl s0 samples N evs s \<Longrightarrow> sess fl s0 samples N (evs @ [ev]) (cstep fl s ev)"
  by (cases ev) (simp_all add: sess_resume sess_deliver sess_cleanup)

lemma crun_snoc: "crun fl s (evs @ [ev]) = cstep fl (crun fl s evs) ev"
  by (simp add: crun_def)

lemma sess_crun:
  assumes "quiescent s0"
  shows "sess fl s0 samples N evs (crun fl (processChunks fl s0 samples N) evs)"
proof (induction evs rule: rev_induct)
  case Nil
  show ?case using sess_start [OF assms] by (simp add: crun_def)
next
  case (snoc ev evs)
  then show ?case by (simp only: crun_snoc sess_cstep)
qed

lemma dispatched_whole_waves:
  assumes "sess_wait s0 samples N evs s"
  shows "nextPromise s - nextPromise s0 = N \<or> 3 dvd (nextPromise s - nextPromise s0)"
proof (cases "awaiting s")
  case None
  with assms show ?thesis by (simp add: sess_wait_def)
next
  case (Some t)
  with assms have "3 dvd t_i t" and "nextPromise s - nextPromise s0 = min (t_i t + 3) N"
    by (simp_all add: sess_wait_def)
  then show ?thesis by (cases "t_i t + 3 \<le> N") (simp_all add: min_def)
qed

lemma earlier_waves_ended:
  assumes "sess_wait s0 samples N evs s" and c: "c < nextPromise s - nextPromise s0"
    and d: "d < 3 * (c div 3)"
  shows "has_terminal evs d"
proof (cases "awaiting s")
  case None
  with assms(1) have "nextPromise s - nextPromise s0 = N" and a: "\<forall>d<N. has_terminal evs d"
    by (simp_all add: sess_wait_def)
  with c d have "d < N" by simp
  with a show ?thesis by simp
next
  case (Some t)
  with assms(1) have dv: "3 dvd t_i t" and k: "nextPromise s - nextPromise s0 = min (t_i t + 3) N"
    and a: "\<forall>d<t_i t. has_terminal evs d"
    by (simp_all add: sess_wait_def)
  from dv obtain v where v: "t_i t = 3 * v" by (auto simp: dvd_def)
  from c k have "c < 3 * v + 3" by (simp add: v)
  then have "c div 3 \<le> v" by simp
  with d have "d < t_i t" by (simp add: v)
  with a show ?thesis by simp
qed

lemma for_loop_pending:
  assumes fresh: "\<forall>p\<in>set (resolved s). p < nextPromise s"
    and a: "awaiting (for_loop fl s samples N i) = Some t"
  shows "\<not> list_all (\<lambda>p. p \<in> set (resolved (for_loop fl s samples N i))) (t_chunkPromises t)"
proof (cases "i < N")
  case False
  with a show ?thesis by (simp add: for_loop_done)
next
  case True
  then have b: "0 < min 3 (N - i)" by simp
  have "nextPromise s \<notin> set (resolved s)" using fresh by auto
  moreover from b have "nextPromise s \<in> set (map (\<lambda>j. nextPromise s + j) [0..<min 3 (N - i)])"
    by (auto simp: image_iff intro: bexI [of _ 0])
  ultimately have "\<not> list_all (\<lambda>p. p \<in> set (resolved s))
      (map (\<lambda>j. nextPromise s + j) [0..<min 3 (N - i)])"
    unfolding list_all_iff by blast
  moreover from a have "t_chunkPromises t = map (\<lambda>j. nextPromise s + j) [0..<min 3 (N - i)]"
    by (auto simp: for_loop_batch(1) [OF True])
  ultimately show ?thesis
    unfolding for_loop_batch(6) [OF True] by simp
qed

lemma resume_pending:
  assumes s: "sess fl s0 samples N evs s" and a: "awaiting (resume fl s) = Some t"
  shows "\<not> list_all (\<lambda>p. p \<in> set (resolved (resume fl s))) (t_chunkPromises t)"
proof (cases "awaiting s")
  case None
  with a show ?thesis by (simp add: resume_def)
next
  case (Some u)
  show ?thesis
  proof (cases "list_all (\<lambda>p. p \<in> set (resolved s)) (t_chunkPromises u)")
    case False
    with Some have r: "resume fl s = s" by (simp add: resume_def)
    with a Some have "t = u" by simp
    with False show ?thesis unfolding r by simp
  next
    case True
    with Some have r: "resume fl s = for_loop fl (s\<lparr> awaiting := None \<rparr>) (t_audio u)
        (t_totalChunks u) (t_i u + MAX_PARALLEL_CHUNKS)"
      by (simp add: resume_def)
    from s have "\<forall>p\<in>set (resolved s). p < nextPromise s"
      by (simp add: sess_def sess_res_def list_all_iff)
    then have f: "\<forall>p\<in>set (resolved (s\<lparr> awaiting := None \<rparr>)). p < nextPromise (s\<lparr> awaiting := None \<rparr>)"
      by simp
    from a have "awaiting (for_loop fl (s\<lparr> awaiting := None \<rparr>) (t_audio u)
        (t_totalChunks u) (t_i u + MAX_PARALLEL_CHUNKS)) = Some t"
      by (simp only: r)
    from for_loop_pending [OF f this] show ?thesis unfolding r .
  qed
qed

lemma crun_pending:
  assumes q: "quiescent s0"
    and a: "awaiting (crun fl (processChunks fl s0 samples N) evs) = Some t"
  shows "\<not> list_all (\<lambda>p. p \<in> set (resolved (crun fl (processChunks fl s0 samples N) evs)))
           (t_chunkPromises t)"
  using a
proof (induction evs rule: rev_induct)
  case Nil
  from q have f: "\<forall>p\<in>set (resolved s0). p < nextPromise s0"
    by (simp add: quiescent_def list_all_iff)
  have r: "crun fl (processChunks fl s0 samples N) [] = for_loop fl s0 samples N 0"
    by (simp add: crun_def processChunks_def)
  from Nil have "awaiting (for_loop fl s0 samples N 0) = Some t" by (simp only: r)
  from for_loop_pending [OF f this] show ?case unfolding r .
next
  case (snoc ev evs)
  show ?case
  proof (cases ev)
    case (FromWorker m)
    have s: "sess fl s0 samples N (evs @ [FromWorker m])
            (deliver (crun fl (processChunks fl s0 samples N) evs) m)"
      by (rule sess_deliver [OF sess_crun [OF q]])
    have r: "crun fl (processChunks fl s0 samples N) (evs @ [ev])
        = resume fl (deliver (crun fl (processChunks fl s0 samples N) evs) m)"
      by (simp add: crun_snoc FromWorker)
    from snoc.prems have "awaiting (resume fl (deliver (crun fl (processChunks fl s0 samples N) evs) m)) = Some t"
      by (simp only: r)
    from resume_pending [OF s this] show ?thesis unfolding r .
  next
    case Cleanup
    with snoc show ?thesis by (simp add: crun_snoc)
  qed
qed

lemma latest_wave_pending:
  assumes wt: "sess_wait s0 samples N evs s" and a: "awaiting s = Some t"
    and p: "\<not> list_all (\<lambda>p. p \<in> set (resolved s)) (t_chunkPromises t)"
  shows "\<exists>c<nextPromise s - nextPromise s0.
           MAX_PARALLEL_CHUNKS * ((nextPromise s - nextPromise s0 - 1) div MAX_PARALLEL_CHUNKS) \<le> c
         \<and> nextPromise s0 + c \<notin> set (resolved s)"
proof -
  from wt a have dv: "3 dvd t_i t" and iN: "t_i t < N"
    and k: "nextPromise s - nextPromise s0 = min (t_i t + 3) N"
    and ps: "t_chunkPromises t = map (\<lambda>c. nextPromise s0 + c) [t_i t..<min (t_i t + 3) N]"
    by (simp_all add: sess_wait_def)
  from p obtain q where qs: "q \<in> set (t_chunkPromises t)" and nq: "q \<notin> set (resolved s)"
    unfolding list_all_iff by blast
  from qs have "q \<in> (\<lambda>c. nextPromise s0 + c) ` {t_i t..<min (t_i t + 3) N}"
    unfolding ps by simp
  then obtain c where c: "t_i t \<le> c" "c < min (t_i t + 3) N" and q: "q = nextPromise s0 + c"
    by (auto simp only: image_iff atLeastLessThan_iff)
  from dv obtain v where v: "t_i t = 3 * v" by (auto simp: dvd_def)
  have "(min (t_i t + 3) N - 1) div 3 = v"
  proof (cases "t_i t + 3 \<le> N")
    case True
    then show ?thesis by (simp add: v min_def)
  next
    case False
    with iN have "3 * v < N" "N < 3 * v + 3" by (simp_all add: v)
    then have "(N - 1) div 3 = v" by presburger
    with False show ?thesis by (simp add: min_def)
  qed
  then have "MAX_PARALLEL_CHUNKS * ((nextPromise s - nextPromise s0 - 1) div MAX_PARALLEL_CHUNKS) = t_i t"
    by (simp add: k v MAX_PARALLEL_CHUNKS_def)
  with c q nq k show ?thesis by auto
qed

lemma first_wave_sent:
  assumes "sess_wait s0 samples N evs s"
  shows "min 3 N \<le> nextPromise s - nextPromise s0"
proof (cases "awaiting s")
  case None
  with assms show ?thesis by (simp add: sess_wait_def)
next
  case (Some t)
  with assms have "nextPromise s - nextPromise s0 = min (t_i t + 3) N"
    by (simp add: sess_wait_def)
  then show ?thesis by simp
qed

lemmas csimps2 = csimps progress_at_def completion_def chunk_request_def

lemma exact_rounding: "binary64_rounding (\<lambda>x. x)"
  by (simp add: binary64_rounding_def)

lemma quiescent_start: "quiescent (processAudioFileWithFile ready_file)"
  by (simp add: quiescent_def processAudioFileWithFile_def ready_file_def)

text \<open>
  Claim C4. A file of \<open>T\<close> samples is cut into \<open>N\<close>, the ceiling of \<open>T\<close> by
  480000, chunks. Whatever events reach the main thread after the file is decoded, the
  messages sent to the worker are those of the chunks \<open>0, ..., k - 1\<close> in this order, where
  \<open>k\<close> is \<open>N\<close> or a multiple of 3: whole batches, of \<open>min 3 (N - i)\<close> chunks for the
  batch starting at \<open>i\<close>, as the batch log records. For every chunk \<open>c\<close> sent, a terminal
  message has been received for every chunk of the batches before the one of \<open>c\<close>: no chunk
  of a batch is sent before every waiter of the batches before it is resolved, a waiter
  being resolved by such a message only. In the other direction, the first batch is sent
  at once, and as long as chunks remain to be sent the waiter of some chunk of the latest
  batch is unresolved (the waiter of chunk \<open>c\<close> is the promise \<open>nextPromise s0 + c\<close>): the
  next batch is sent as soon as the last waiter of a batch is resolved.
\<close>

theorem waves_of_three:
  assumes "quiescent s0"
  shows "\<exists>k\<le>nat \<lceil>real (length samples) / real MAX_SAMPLES\<rceil>.
          (k = nat \<lceil>real (length samples) / real MAX_SAMPLES\<rceil> \<or> MAX_PARALLEL_CHUNKS dvd k)
        \<and> outbox (crun fl (onloadend fl s0 (Some samples)) evs)
            = outbox s0 @ map (chunk_request samples (ui_language s0)) [0..<k]
        \<and> batchLog (crun fl (onloadend fl s0 (Some samples)) evs)
            = batchLog s0
              @ map (\<lambda>w. (min MAX_PARALLEL_CHUNKS
                              (nat \<lceil>real (length samples) / real MAX_SAMPLES\<rceil> - 3 * w), 3 * w))
                  [0..<(k + 2) div 3]
        \<and> (\<forall>c<k. \<forall>d<MAX_PARALLEL_CHUNKS * (c div MAX_PARALLEL_CHUNKS). has_terminal evs d)
        \<and> min MAX_PARALLEL_CHUNKS (nat \<lceil>real (length samples) / real MAX_SAMPLES\<rceil>) \<le> k
        \<and> (k < nat \<lceil>real (length samples) / real MAX_SAMPLES\<rceil> \<longrightarrow>
             (\<exists>c<k. MAX_PARALLEL_CHUNKS * ((k - 1) div MAX_PARALLEL_CHUNKS) \<le> c
                  \<and> nextPromise s0 + c
                      \<notin> set (resolved (crun fl (onloadend fl s0 (Some samples)) evs))))"
proof -
  define N where "N = nat \<lceil>real (length samples) / real MAX_SAMPLES\<rceil>"
  define s where "s = crun fl (onloadend fl s0 (Some samples)) evs"
  have "sess fl s0 samples N evs s"
    using sess_crun [OF assms, of fl samples N evs] by (simp add: s_def onloadend_def N_def)
  then have lg: "sess_log fl s0 samples N s" and wt: "sess_wait s0 samples N evs s"
    by (simp_all add: sess_def)
  define k where "k = nextPromise s - nextPromise s0"
  have 1: "k \<le> N" using lg by (simp add: sess_log_def k_def)
  have 2: "k = N \<or> MAX_PARALLEL_CHUNKS dvd k"
    using dispatched_whole_waves [OF wt] by (simp add: k_def MAX_PARALLEL_CHUNKS_def)
  have 3: "outbox s = outbox s0 @ map (chunk_request samples (ui_language s0)) [0..<k]"
    using lg by (simp add: sess_log_def k_def)
  have 4: "batchLog s = batchLog s0
              @ map (\<lambda>w. (min MAX_PARALLEL_CHUNKS (N - 3 * w), 3 * w)) [0..<(k + 2) div 3]"
    using lg by (simp add: sess_log_def k_def)
  have 5: "\<forall>c<k. \<forall>d<MAX_PARALLEL_CHUNKS * (c div MAX_PARALLEL_CHUNKS). has_terminal evs d"
    using earlier_waves_ended [OF wt] by (simp add: k_def MAX_PARALLEL_CHUNKS_def)
  have 6: "min MAX_PARALLEL_CHUNKS N \<le> k"
    using first_wave_sent [OF wt] by (simp add: k_def MAX_PARALLEL_CHUNKS_def)
  have 7: "k < N \<longrightarrow> (\<exists>c<k. MAX_PARALLEL_CHUNKS * ((k - 1) div MAX_PARALLEL_CHUNKS) \<le> c
                  \<and> nextPromise s0 + c \<notin> set (resolved s))"
  proof
    assume kN: "k < N"
    have "awaiting s \<noteq> None"
    proof
      assume "awaiting s = None"
      with wt have "k = N" by (simp add: sess_wait_def k_def)
      with kN show False by simp
    qed
    then obtain t where a: "awaiting s = Some t" by auto
    have "awaiting (crun fl (processChunks fl s0 samples N) evs) = Some t"
      using a by (simp add: s_def onloadend_def N_def)
    from crun_pending [OF assms this]
    have "\<not> list_all (\<lambda>p. p \<in> set (resolved s)) (t_chunkPromises t)"
      by (simp add: s_def onloadend_def N_def)
    from latest_wave_pending [OF wt a this]
    show "\<exists>c<k. MAX_PARALLEL_CHUNKS * ((k - 1) div MAX_PARALLEL_CHUNKS) \<le> c
                  \<and> nextPromise s0 + c \<notin> set (resolved s)"
      by (simp only: k_def)
  qed
  show ?thesis
    unfolding N_def [symmetric] s_def [symmetric]
    by (rule exI [of _ k]) (intro conjI 1 2 3 4 5 6 7)
qed

theorem waves_of_three_witness:
  "quiescent (processAudioFileWithFile ready_file)
   \<and> nat \<lceil>real (length (silence 181)) / real MAX_SAMPLES\<rceil> = 7
   \<and> map chunkId (outbox (file_session (\<lambda>x. x) (silence 181))) = [Num 0, Num 1, Num 2]
   \<and> map chunkId (outbox (crun (\<lambda>x. x) (file_session (\<lambda>x. x) (silence 181))
        [completion 0 '' a'', completion 2 '' c''])) = [Num 0, Num 1, Num 2]
   \<and> map chunkId (outbox (crun (\<lambda>x. x) (file_session (\<lambda>x. x) (silence 181))
        [completion 0 '' a'', completion 2 '' c'', completion 1 '' b'']))
       = [Num 0, Num 1, Num 2, Num 3, Num 4, Num 5]
   \<and> nextPromise (processAudioFileWithFile ready_file) = 0
   \<and> resolved (crun (\<lambda>x. x) (file_session (\<lambda>x. x) (silence 181))
        [completion 0 '' a'', completion 2 '' c'', completion 1 '' b'']) = [0, 2, 1]
   \<and> map chunkId (outbox (crun (\<lambda>x. x) (file_session (\<lambda>x. x) (silence 181))
        [completion 0 '' a'', completion 2 '' c'', completion 1 '' b'',
         completion 3 '' d'', completion 4 '' e'']))
       = [Num 0, Num 1, Num 2, Num 3, Num 4, Num 5]
   \<and> map chunkId (outbox (crun (\<lambda>x. x) (file_session (\<lambda>x. x) (silence 181))
        [completion 0 '' a'', completion 2 '' c'', completion 1 '' b'',
         completion 3 '' d'', completion 4 '' e'', completion 5 '' f'']))
       = [Num 0, Num 1, Num 2, Num 3, Num 4, Num 5, Num 6]
   \<and> batchLog (crun (\<lambda>x. x) (file_session (\<lambda>x. x) (silence 181))
        [completion 0 '' a'', completion 2 '' c'', completion 1 '' b'',
         completion 3 '' d'', completion 4 '' e'', completion 5 '' f'', completion 6 '' g''])
       = [(3, 0), (3, 3), (1, 6)]
   \<and> awaiting (crun (\<lambda>x. x) (file_session (\<lambda>x. x) (silence 181))
        [completion 0 '' a'', completion 2 '' c'', completion 1 '' b'',
         completion 3 '' d'', completion 4 '' e'', completion 5 '' f'', completion 6 '' g''])
       = None"
  using waves_of_three [OF quiescent_start, of "silence 181" "\<lambda>x. x"
          "[completion 0 '' a'', completion 2 '' c'', completion 1 '' b'']"]
        quiescent_start
  by (simp add: csimps2 upt_rec)

section \<open>Progress values\<close>

lemma js_round_near: "\<bar>real_of_int (js_round z) - z\<bar> \<le> 1 / 2"
  unfolding js_round_def by linarith

lemma binary64_in_range:
  assumes "binary64_rounding fl" and "1 / 2 ^ 54 \<le> x" and "x \<le> 200"
  shows "\<bar>fl x - x\<bar> \<le> x / 2 ^ 53"
proof -
  have "(0::real) < 1 / 2 ^ 54" by simp
  with assms(2) have x0: "0 \<le> x" by linarith
  have "(1::real) / 2 ^ 1022 \<le> 1 / 2 ^ 54" by simp
  with assms(2) x0 have a: "1 / 2 ^ 1022 \<le> \<bar>x\<bar>" by linarith
  have "(200::real) \<le> 2 ^ 1023" by simp
  with assms(3) x0 have b: "\<bar>x\<bar> \<le> 2 ^ 1023" by linarith
  from assms(1) a b have "\<bar>fl x - x\<bar> \<le> \<bar>x\<bar> / 2 ^ 53"
    unfolding binary64_rounding_def by blast
  with x0 show ?thesis by simp
qed

lemma progress_near:
  assumes fl: "binary64_rounding fl" and c: "c < N" and N: "real N \<le> 2 ^ 53"
  shows "\<bar>real_of_int (progress_at fl N c) - 100 * real c / real N\<bar> \<le> 1 / 2 + 1 / 10 ^ 12"
proof (cases "c = 0")
  case True
  from fl have "fl 0 = 0" by (simp add: binary64_rounding_def)
  with True show ?thesis by (simp add: progress_at_def js_round_def)
next
  case False
  define x where "x = real c / real N"
  define y where "y = fl x"
  define z where "z = fl (y * 100)"
  from c False have Npos: "0 < real N" and c1: "1 \<le> real c" and cN: "real c < real N" by simp_all
  have x1: "x < 1" unfolding x_def using cN Npos by simp
  have "1 / real N \<le> x" unfolding x_def using c1 Npos by (simp add: divide_right_mono)
  moreover have "1 / 2 ^ 53 \<le> 1 / real N" using N Npos by (simp add: frac_le)
  ultimately have x0: "1 / 2 ^ 53 \<le> x" by linarith
  have "(1::real) / 2 ^ 54 \<le> 1 / 2 ^ 53" by simp
  with x0 have x54: "1 / 2 ^ 54 \<le> x" by linarith
  have "\<bar>fl x - x\<bar> \<le> x / 2 ^ 53"
    using fl x54 x1 by (intro binary64_in_range) simp_all
  then have yx: "\<bar>y - x\<bar> \<le> x / 2 ^ 53" by (simp add: y_def)
  have xpos: "0 < x" using x0 by (smt (verit) divide_pos_pos zero_less_power zero_less_one)
  have "x / 2 ^ 53 \<le> x / 2" using xpos by (simp add: field_simps)
  with yx have ylo: "x / 2 \<le> y" and yhi: "y \<le> 3 * x / 2" by linarith+
  have "x / 2 ^ 53 \<le> 1 / 2 ^ 53" using x1 xpos by (simp add: divide_right_mono)
  with yx have yx': "\<bar>y - x\<bar> \<le> 1 / 2 ^ 53" by linarith
  define h where "h = (1::real) / 2 ^ 54"
  have h: "1 / 2 ^ 53 = 2 * h" "0 < h" by (simp_all add: h_def)
  from x0 ylo h have "h \<le> y * 100" by linarith
  then have y0: "1 / 2 ^ 54 \<le> y * 100" by (simp only: h_def)
  have y1: "y * 100 \<le> 200" using yhi x1 by linarith
  have "\<bar>fl (y * 100) - y * 100\<bar> \<le> y * 100 / 2 ^ 53"
    using fl y0 y1 by (rule binary64_in_range)
  then have zy: "\<bar>z - y * 100\<bar> \<le> y * 100 / 2 ^ 53" by (simp add: z_def)
  have "y * 100 / 2 ^ 53 \<le> 200 / 2 ^ 53" using y1 by (simp add: divide_right_mono)
  with zy have zy': "\<bar>z - y * 100\<bar> \<le> 200 / 2 ^ 53" by linarith
  have e: "(200::real) / 2 ^ 53 + 100 * (1 / 2 ^ 53) \<le> 1 / 10 ^ 12" by simp
  have zx: "\<bar>z - 100 * x\<bar> \<le> 1 / 10 ^ 12" using zy' yx' e by linarith
  have "\<bar>real_of_int (js_round z) - z\<bar> \<le> 1 / 2" by (rule js_round_near)
  with zx have "\<bar>real_of_int (js_round z) - 100 * x\<bar> \<le> 1 / 2 + 1 / 10 ^ 12" by linarith
  then show ?thesis by (simp add: progress_at_def z_def y_def x_def)
qed

lemma pin_integer:
  assumes "\<bar>real_of_int p - a\<bar> \<le> 1 / 2 + 1 / 10 ^ 12"
    and "real_of_int n - 4 / 10 < a" and "a < real_of_int n + 4 / 10"
  shows "p = n"
proof -
  have e: "(1::real) / 10 ^ 12 < 1 / 10" by simp
  from assms e have "real_of_int p < real_of_int n + 1" and "real_of_int n - 1 < real_of_int p"
    by linarith+
  then have "p < n + 1" and "n - 1 < p" by linarith+
  then show ?thesis by linarith
qed

lemma progress_three:
  assumes fl: "binary64_rounding fl"
  shows "map (progress_at fl 3) [0, 1, 2] = [0, 33, 67]"
proof -
  have 0: "\<bar>real_of_int (progress_at fl 3 0) - 100 * real 0 / real 3\<bar> \<le> 1 / 2 + 1 / 10 ^ 12"
    by (rule progress_near [OF fl]) simp_all
  have 1: "\<bar>real_of_int (progress_at fl 3 1) - 100 * real 1 / real 3\<bar> \<le> 1 / 2 + 1 / 10 ^ 12"
    by (rule progress_near [OF fl]) simp_all
  have 2: "\<bar>real_of_int (progress_at fl 3 2) - 100 * real 2 / real 3\<bar> \<le> 1 / 2 + 1 / 10 ^ 12"
    by (rule progress_near [OF fl]) simp_all
  have "progress_at fl 3 0 = 0" by (rule pin_integer [OF 0]) simp_all
  moreover have "progress_at fl 3 1 = 33" by (rule pin_integer [OF 1]) simp_all
  moreover have "progress_at fl 3 2 = 67" by (rule pin_integer [OF 2]) simp_all
  ultimately show ?thesis by simp
qed

text \<open>
  Claim C5, as amended. The progress set when chunk \<open>c\<close> of \<open>N\<close> is dispatched is
  \<^verbatim>\<open>Math.round(c / N * 100)\<close>, computed in binary64: the progress log holds one such
  value for each message sent, in order, so the values are those of dispatch, and the
  final 100 is logged only when the session has finished, after a terminal message for
  every chunk. For up to 2 to the power 53 chunks the value is within one half (and a rounding
  error below 10 to the power -12) of \<open>100 c / N\<close>: it is the nearest integer, not the integer
  part. For \<open>N = 3\<close> the values are 0, 33, 67.
\<close>

theorem progress_at_dispatch:
  fixes fl s0 samples evs
  defines "N \<equiv> nat \<lceil>real (length samples) / real MAX_SAMPLES\<rceil>"
  defines "s \<equiv> crun fl (onloadend fl s0 (Some samples)) evs"
  assumes fl: "binary64_rounding fl" and q: "quiescent s0"
  shows "(\<exists>k\<le>N. outbox s = outbox s0 @ map (chunk_request samples (ui_language s0)) [0..<k]
            \<and> progressLog s = progressLog s0
                 @ map (\<lambda>c. js_round (fl (fl (real c / real N) * 100))) [0..<k]
                 @ (if awaiting s = None then [100] else [])
            \<and> (awaiting s = None \<longrightarrow> k = N \<and> (\<forall>d<N. has_terminal evs d)))
       \<and> (real N \<le> 2 ^ 53 \<longrightarrow>
            (\<forall>c<N. \<bar>real_of_int (js_round (fl (fl (real c / real N) * 100)))
                      - 100 * real c / real N\<bar> \<le> 1 / 2 + 1 / 10 ^ 12))
       \<and> map (\<lambda>c. js_round (fl (fl (real c / real 3) * 100))) [0, 1, 2] = [0, 33, 67]"
proof -
  have "sess fl s0 samples N evs s"
    using sess_crun [OF q, of fl samples N evs] by (simp add: s_def onloadend_def N_def)
  then have lg: "sess_log fl s0 samples N s" and wt: "sess_wait s0 samples N evs s"
    by (simp_all add: sess_def)
  define k where "k = nextPromise s - nextPromise s0"
  have 1: "k \<le> N" using lg by (simp add: sess_log_def k_def)
  have 2: "outbox s = outbox s0 @ map (chunk_request samples (ui_language s0)) [0..<k]"
    using lg by (simp add: sess_log_def k_def)
  have 3: "progressLog s = progressLog s0
                 @ map (\<lambda>c. js_round (fl (fl (real c / real N) * 100))) [0..<k]
                 @ (if awaiting s = None then [100] else [])"
    using lg by (simp add: sess_log_def k_def progress_at_def [abs_def])
  have 4: "awaiting s = None \<longrightarrow> k = N \<and> (\<forall>d<N. has_terminal evs d)"
  proof
    assume "awaiting s = None"
    with wt show "k = N \<and> (\<forall>d<N. has_terminal evs d)" by (simp add: sess_wait_def k_def)
  qed
  have 5: "real N \<le> 2 ^ 53 \<longrightarrow>
            (\<forall>c<N. \<bar>real_of_int (js_round (fl (fl (real c / real N) * 100)))
                      - 100 * real c / real N\<bar> \<le> 1 / 2 + 1 / 10 ^ 12)"
  proof (intro impI allI)
    fix c assume "real N \<le> 2 ^ 53" and "c < N"
    from progress_near [OF fl this(2,1)]
    show "\<bar>real_of_int (js_round (fl (fl (real c / real N) * 100)))
                      - 100 * real c / real N\<bar> \<le> 1 / 2 + 1 / 10 ^ 12"
      by (simp only: progress_at_def)
  qed
  have 6: "map (\<lambda>c. js_round (fl (fl (real c / real 3) * 100))) [0, 1, 2] = [0, 33, 67]"
    using progress_three [OF fl] by (simp only: progress_at_def list.map of_nat_numeral of_nat_0 of_nat_1)
  have A: "\<exists>k\<le>N. outbox s = outbox s0 @ map (chunk_request samples (ui_language s0)) [0..<k]
            \<and> progressLog s = progressLog s0
                 @ map (\<lambda>c. js_round (fl (fl (real c / real N) * 100))) [0..<k]
                 @ (if awaiting s = None then [100] else [])
            \<and> (awaiting s = None \<longrightarrow> k = N \<and> (\<forall>d<N. has_terminal evs d))"
    by (rule exI [of _ k]) (intro conjI 1 2 3 4)
  show ?thesis by (intro conjI A 5 6)
qed

theorem progress_at_dispatch_witness:
  "binary64_rounding (\<lambda>x. x)
   \<and> quiescent (processAudioFileWithFile ready_file)
   \<and> nat \<lceil>real (length (silence 65)) / real MAX_SAMPLES\<rceil> = 3
   \<and> progressLog (file_session (\<lambda>x. x) (silence 65)) = [0, 0, 33, 67]
   \<and> map chunkId (outbox (file_session (\<lambda>x. x) (silence 65))) = [Num 0, Num 1, Num 2]
   \<and> progressLog (crun (\<lambda>x. x) (file_session (\<lambda>x. x) (silence 65))
        [completion 0 '' a'', completion 1 '' b'']) = [0, 0, 33, 67]
   \<and> progressLog (crun (\<lambda>x. x) (file_session (\<lambda>x. x) (silence 65))
        [completion 0 '' a'', completion 1 '' b'', completion 2 '' c'']) = [0, 0, 33, 67, 100]
   \<and> awaiting (crun (\<lambda>x. x) (file_session (\<lambda>x. x) (silence 65))
        [completion 0 '' a'', completion 1 '' b'', completion 2 '' c'']) = None"
  using progress_at_dispatch [OF exact_rounding quiescent_start, of "silence 65"
          "[completion 0 '' a'', completion 1 '' b'', completion 2 '' c'']"]
        exact_rounding quiescent_start
  by (simp add: csimps2 upt_rec)

text \<open>
  The claim as stated gives 0, 33, 66 as the values for three chunks: no binary64 rounding
  makes the progress log of a 65-second file the initial 0 followed by 0, 33, 66.
\<close>

theorem progress_counterexample:
  "\<not> (\<exists>fl. binary64_rounding fl
          \<and> progressLog (file_session fl (silence 65)) = [0, 0, 33, 66])"
proof
  assume "\<exists>fl. binary64_rounding fl \<and> progressLog (file_session fl (silence 65)) = [0, 0, 33, 66]"
  then obtain fl where fl: "binary64_rounding fl"
    and l: "progressLog (file_session fl (silence 65)) = [0, 0, 33, 66]" by blast
  have "progressLog (file_session fl (silence 65)) = 0 # map (progress_at fl 3) [0, 1, 2]"
    by (simp add: csimps upt_rec progress_at_def)
  with progress_three [OF fl] have "progressLog (file_session fl (silence 65)) = [0, 0, 33, 67]"
    by simp
  with l show False by simp
qed

section \<open>The transcript of a file\<close>

lemma for_loop_keeps:
  "transcript (for_loop fl s samples N i) = transcript s"
  "status (for_loop fl s samples N i) = status s"
  "mode (for_loop fl s samples N i) = mode s"
  by (cases "i < N"; simp add: for_loop_batch for_loop_done)+

lemma resume_keeps:
  "transcript (resume fl s) = transcript s"
  "status (resume fl s) = status s"
  "mode (resume fl s) = mode s"
  by (simp_all add: resume_def for_loop_keeps split: option.splits)

lemma resume_finished: "awaiting s = None \<Longrightarrow> resume fl s = s"
  by (simp add: resume_def)

lemma cstep_finished: "awaiting s = None \<Longrightarrow> awaiting (cstep fl s ev) = None"
  by (cases ev) (simp_all add: resume_finished deliver_core)

lemma resume_flag:
  assumes "awaiting s \<noteq> None \<longrightarrow> isProcessingFullFile s"
  shows "awaiting (resume fl s) \<noteq> None \<longrightarrow> isProcessingFullFile (resume fl s)"
proof (cases "awaiting s")
  case None
  then show ?thesis by (simp add: resume_def)
next
  case (Some t)
  with assms have f: "isProcessingFullFile s" by simp
  show ?thesis
  proof (cases "list_all (\<lambda>p. p \<in> set (resolved s)) (t_chunkPromises t)")
    case False
    with Some f show ?thesis by (simp add: resume_def)
  next
    case True
    show ?thesis
    proof (cases "t_i t + MAX_PARALLEL_CHUNKS < t_totalChunks t")
      case True
      from for_loop_batch(8) [OF True, of fl "s\<lparr> awaiting := None \<rparr>" "t_audio t"] f Some
        \<open>list_all (\<lambda>p. p \<in> set (resolved s)) (t_chunkPromises t)\<close>
      show ?thesis by (simp add: resume_def)
    next
      case False
      from for_loop_done [OF False, of fl "s\<lparr> awaiting := None \<rparr>" "t_audio t"] Some
        \<open>list_all (\<lambda>p. p \<in> set (resolved s)) (t_chunkPromises t)\<close>
      show ?thesis by (simp add: resume_def)
    qed
  qed
qed

lemma cstep_flag:
  assumes "awaiting s \<noteq> None \<longrightarrow> isProcessingFullFile s"
  shows "awaiting (cstep fl s ev) \<noteq> None \<longrightarrow> isProcessingFullFile (cstep fl s ev)"
proof (cases ev)
  case (FromWorker m)
  have "awaiting (deliver s m) \<noteq> None \<longrightarrow> isProcessingFullFile (deliver s m)"
    using assms by (simp add: deliver_core)
  then show ?thesis unfolding FromWorker cstep.simps by (rule resume_flag)
next
  case Cleanup
  with assms show ?thesis by simp
qed

lemma message_step:
  assumes "\<not> is_error ev" "status s = Some ''ready''" "mode s = FileMode" "isProcessingFullFile s"
  shows "transcript (cstep fl s ev) = transcript s @ piece ev
       \<and> status (cstep fl s ev) = Some ''ready'' \<and> mode (cstep fl s ev) = FileMode"
proof (cases ev)
  case Cleanup
  with assms show ?thesis by (simp add: piece_def)
next
  case (FromWorker m)
  show ?thesis
  proof (cases m)
    case (Start c)
    with assms FromWorker show ?thesis
      by (simp add: resume_keeps deliver_def onMessageReceived_def handleWorkerMessage_file_def
            piece_def)
  next
    case (Update c out n)
    with assms FromWorker show ?thesis
      by (simp add: resume_keeps deliver_def onMessageReceived_def handleWorkerMessage_file_def
            piece_def)
  next
    case (Complete c outs)
    with assms FromWorker show ?thesis
      by (cases outs)
         (simp_all add: resume_keeps deliver_def onMessageReceived_def
            handleWorkerMessage_file_def resolve_chunk_def piece_def Let_def
            split: option.splits)
  next
    case (Error e c)
    with assms FromWorker show ?thesis by simp
  qed
qed

lemma file_session_flag:
  "awaiting (processChunks fl (processAudioFileWithFile s0) samples N) \<noteq> None \<longrightarrow>
   isProcessingFullFile (processChunks fl (processAudioFileWithFile s0) samples N)"
  by (cases "0 < N")
     (simp_all add: processChunks_def for_loop_batch for_loop_done processAudioFileWithFile_def)

lemma crun_flag:
  assumes "awaiting s \<noteq> None \<longrightarrow> isProcessingFullFile s"
  shows "awaiting (crun fl s evs) \<noteq> None \<longrightarrow> isProcessingFullFile (crun fl s evs)"
proof (induction evs rule: rev_induct)
  case Nil
  with assms show ?case by (simp add: crun_def)
next
  case (snoc ev evs)
  then show ?case unfolding crun_snoc by (rule cstep_flag)
qed

lemma crun_unfinished:
  assumes "awaiting (crun fl s (evs @ [ev])) \<noteq> None"
  shows "awaiting (crun fl s evs) \<noteq> None"
proof
  assume "awaiting (crun fl s evs) = None"
  then have "awaiting (cstep fl (crun fl s evs) ev) = None" by (rule cstep_finished)
  with assms show False by (simp add: crun_snoc)
qed

lemma transcript_of_messages:
  assumes k: "awaiting s \<noteq> None \<longrightarrow> isProcessingFullFile s"
    and st: "status s = Some ''ready''" and md: "mode s = FileMode"
  shows "list_all (\<lambda>ev. \<not> is_error ev) evs \<Longrightarrow> awaiting (crun fl s (butlast evs)) \<noteq> None \<Longrightarrow>
     transcript (crun fl s evs) = transcript s @ concat (map piece evs)
   \<and> status (crun fl s evs) = Some ''ready'' \<and> mode (crun fl s evs) = FileMode"
proof (induction evs rule: rev_induct)
  case Nil
  with st md show ?case by (simp add: crun_def)
next
  case (snoc ev evs)
  from snoc.prems have c: "list_all (\<lambda>ev. \<not> is_error ev) evs" and e: "\<not> is_error ev"
    and a: "awaiting (crun fl s evs) \<noteq> None" by simp_all
  have "awaiting (crun fl s (butlast evs)) \<noteq> None"
  proof (cases evs rule: rev_cases)
    case Nil
    with a show ?thesis by simp
  next
    case (snoc ys y)
    with a show ?thesis using crun_unfinished [of fl s ys y] by simp
  qed
  with snoc.IH c have ih: "transcript (crun fl s evs) = transcript s @ concat (map piece evs)"
    "status (crun fl s evs) = Some ''ready''" "mode (crun fl s evs) = FileMode" by simp_all
  from crun_flag [OF k, of fl evs] a have f: "isProcessingFullFile (crun fl s evs)" by simp
  from message_step [OF e ih(2,3) f, of fl] ih(1)
  show ?case by (simp add: crun_snoc)
qed

lemma pieces_concat:
  "concat (map piece evs)
     = concat (map (\<lambda>t. '' '' @ t) (filter (\<lambda>t. t \<noteq> []) (map completed_text evs)))"
  by (induction evs) (simp_all add: piece_def)

lemma spaced_join: "ts \<noteq> [] \<Longrightarrow> concat (map (\<lambda>t. '' '' @ t) ts) = '' '' @ join_space ts"
  by (induction ts rule: join_space.induct) simp_all

lemma join_space_tidy:
  "ts \<noteq> [] \<Longrightarrow> \<forall>t\<in>set ts. t \<noteq> [] \<and> \<not> is_ws (hd t) \<and> \<not> is_ws (last t) \<Longrightarrow>
   join_space ts \<noteq> [] \<and> \<not> is_ws (hd (join_space ts)) \<and> \<not> is_ws (last (join_space ts))"
  by (induction ts rule: join_space.induct) (simp_all add: hd_append)

lemma js_trim_leading_space:
  assumes "u \<noteq> []" "\<not> is_ws (hd u)" "\<not> is_ws (last u)"
  shows "js_trim ('' '' @ u) = u"
proof -
  have "is_ws CHR '' ''" by (simp add: is_ws_def)
  moreover from assms(1,2) have "dropWhile is_ws u = u" by (cases u) simp_all
  ultimately have "js_trim ('' '' @ u) = js_trim u" by (simp add: js_trim_def)
  also from assms have "js_trim u = u" by (simp add: js_trim_fixed_iff)
  finally show ?thesis .
qed

lemma completed_text_tidy:
  "completed_text ev \<noteq> [] \<Longrightarrow>
   \<not> is_ws (hd (completed_text ev)) \<and> \<not> is_ws (last (completed_text ev))"
proof (induction ev rule: completed_text.induct)
  case (1 c out0 rest)
  have "js_trim (js_trim out0) = js_trim out0" by (rule js_trim_idem)
  with 1 show ?case by (simp add: js_trim_fixed_iff)
qed simp_all

lemma trim_of_pieces:
  "js_trim (concat (map piece evs))
     = join_space (filter (\<lambda>t. t \<noteq> []) (map completed_text evs))"
proof (cases "filter (\<lambda>t. t \<noteq> []) (map completed_text evs) = []")
  case True
  then show ?thesis by (simp add: pieces_concat js_trim_Nil)
next
  case False
  let ?ts = "filter (\<lambda>t. t \<noteq> []) (map completed_text evs)"
  have "\<forall>t\<in>set ?ts. t \<noteq> [] \<and> \<not> is_ws (hd t) \<and> \<not> is_ws (last t)"
    using completed_text_tidy by auto
  with False have "join_space ?ts \<noteq> [] \<and> \<not> is_ws (hd (join_space ?ts))
      \<and> \<not> is_ws (last (join_space ?ts))" by (rule join_space_tidy)
  then have "js_trim ('' '' @ join_space ?ts) = join_space ?ts"
    by (intro js_trim_leading_space) simp_all
  moreover have "concat (map piece evs) = '' '' @ join_space ?ts"
    using spaced_join [OF False] by (simp add: pieces_concat)
  ultimately show ?thesis by simp
qed

text \<open>
  What a session on a decoded file makes of the messages it receives, as long as none of
  them is an \<^verbatim>\<open>error\<close> and the session has not finished before the last of them
  (later completions are ignored): every completion with a text that is not empty once
  trimmed appends one space and the trimmed text, and no other message changes the
  transcript. So the transcript without its surrounding whitespace is the non-empty
  trimmed texts in the order of arrival, joined with single spaces; the transcript itself
  starts with a space as soon as one text has been appended.
\<close>

lemma file_transcript:
  assumes "status s0 = Some ''ready''" and "mode s0 = FileMode"
    and "list_all (\<lambda>ev. \<not> is_error ev) evs"
    and "awaiting (crun fl (onloadend fl (processAudioFileWithFile s0) (Some samples))
                    (butlast evs)) \<noteq> None"
  shows "transcript (crun fl (onloadend fl (processAudioFileWithFile s0) (Some samples)) evs)
           = concat (map piece evs)"
    and "js_trim (transcript (crun fl (onloadend fl (processAudioFileWithFile s0) (Some samples)) evs))
           = join_space (filter (\<lambda>t. t \<noteq> []) (map completed_text evs))"
proof -
  define N where "N = nat \<lceil>real (length samples) / real MAX_SAMPLES\<rceil>"
  define S where "S = processChunks fl (processAudioFileWithFile s0) samples N"
  have S: "onloadend fl (processAudioFileWithFile s0) (Some samples) = S"
    by (simp add: onloadend_def S_def N_def)
  have k: "awaiting S \<noteq> None \<longrightarrow> isProcessingFullFile S"
    unfolding S_def by (rule file_session_flag)
  have st: "status S = Some ''ready''" and md: "mode S = FileMode" and tr: "transcript S = []"
    using assms(1,2)
    by (simp_all add: S_def processChunks_def for_loop_keeps processAudioFileWithFile_def)
  from assms(4) have a: "awaiting (crun fl S (butlast evs)) \<noteq> None" unfolding S .
  from transcript_of_messages [OF k st md assms(3) a] tr
  have t: "transcript (crun fl S evs) = concat (map piece evs)" by simp
  then show "transcript (crun fl (onloadend fl (processAudioFileWithFile s0) (Some samples)) evs)
           = concat (map piece evs)"
    unfolding S .
  from t show "js_trim (transcript (crun fl (onloadend fl (processAudioFileWithFile s0) (Some samples)) evs))
           = join_space (filter (\<lambda>t. t \<noteq> []) (map completed_text evs))"
    unfolding S by (simp only: trim_of_pieces)
qed

text \<open>
  Claim C6, evaluated where the code departs from it. A 65-second file is cut into three
  chunks. The worker receives the three requests in the order of their ids, decodes them
  to \<^verbatim>\<open>' Hello'\<close>, \<^verbatim>\<open>' there'\<close> and \<^verbatim>\<open>' world'\<close>, and posts start, update and
  complete for each, in the order of the ids. Every chunk completes and the session ends.
  The texts ordered by chunk id and joined with single spaces are
  \<^verbatim>\<open>'Hello there world'\<close>; the transcript is \<^verbatim>\<open>' Hello there world'\<close>, with a leading
  space, because the listener appends a space and the text to the empty transcript too.
  The listener of the realtime component returns the text alone when the transcript is
  empty.
\<close>

theorem batch_transcript_leading_space:
  "map chunkId (outbox (file_session (\<lambda>x. x) (silence 65))) = [Num 0, Num 1, Num 2]
   \<and> posted (wrun hello_events)
       = [Start (Num 0), Update (Num 0) '' Hello'' 1, Complete (Num 0) ['' Hello''],
          Start (Num 1), Update (Num 1) '' there'' 1, Complete (Num 1) ['' there''],
          Start (Num 2), Update (Num 2) '' world'' 1, Complete (Num 2) ['' world'']]
   \<and> awaiting (crun (\<lambda>x. x) (file_session (\<lambda>x. x) (silence 65)) hello_stream) = None
   \<and> \<not> isProcessingFullFile (crun (\<lambda>x. x) (file_session (\<lambda>x. x) (silence 65)) hello_stream)
   \<and> processingProgress (crun (\<lambda>x. x) (file_session (\<lambda>x. x) (silence 65)) hello_stream) = 100
   \<and> resolved (crun (\<lambda>x. x) (file_session (\<lambda>x. x) (silence 65)) hello_stream) = [0, 1, 2]
   \<and> join_space (filter (\<lambda>t. t \<noteq> [])
         (map completed_text (sort_key completed_id (filter is_complete hello_stream))))
       = ''Hello there world''
   \<and> transcript (crun (\<lambda>x. x) (file_session (\<lambda>x. x) (silence 65)) hello_stream)
       = '' Hello there world''
   \<and> transcript (crun (\<lambda>x. x) (file_session (\<lambda>x. x) (silence 65)) hello_stream)
     \<noteq> join_space (filter (\<lambda>t. t \<noteq> [])
         (map completed_text (sort_key completed_id (filter is_complete hello_stream))))
   \<and> transcript (handleWorkerMessage_realtime (ready_realtime [])
        (Complete Realtime ['' Hello''])) = ''Hello''"
proof -
  have p: "posted (wrun hello_events)
       = [Start (Num 0), Update (Num 0) '' Hello'' 1, Complete (Num 0) ['' Hello''],
          Start (Num 1), Update (Num 1) '' there'' 1, Complete (Num 1) ['' there''],
          Start (Num 2), Update (Num 2) '' world'' 1, Complete (Num 2) ['' world'']]"
    by (simp add: hello_events_def csimps2 wsimps file_session_def upt_rec)
  have h: "hello_stream = map FromWorker
        [Start (Num 0), Update (Num 0) '' Hello'' 1, Complete (Num 0) ['' Hello''],
          Start (Num 1), Update (Num 1) '' there'' 1, Complete (Num 1) ['' there''],
          Start (Num 2), Update (Num 2) '' world'' 1, Complete (Num 2) ['' world'']]"
    by (simp only: hello_stream_def p)
  show ?thesis
    unfolding p h
    by (simp add: csimps2 file_session_def upt_rec handleWorkerMessage_file_def
          handleWorkerMessage_realtime_def updater_def ready_realtime_def resolve_chunk_def
          assign_def Let_def js_trim_def is_ws_def)
qed

end
